theory Spec2Isabelle
  imports Main "HOL-Library.Word" "HOL-Library.Sublist"
begin

section \<open>JavaScript strings\<close>

text \<open>
  A JavaScript string is a sequence of UTF-16 code units, and \<open>length\<close>, \<open>slice\<close>,
  \<open>startsWith\<close> and the other string methods used by \<open>src/tools.ts\<close> count and compare
  code units. The ellipsis \<open>U+2026\<close> that \<open>truncate\<close> appends is one code unit, so the
  embedding uses lists of 16-bit words rather than HOL's byte strings. \<open>js\<close> turns an
  ASCII literal of HOL into the JavaScript string with the same characters.
\<close>

type_synonym code_unit = "16 word"
type_synonym jsstring = "code_unit list"

definition js :: "string \<Rightarrow> jsstring" where
  "js s = map of_char s"

definition slash :: code_unit where
  "slash = 0x2F"

definition backslash :: code_unit where
  "backslash = 0x5C"

definition newline :: code_unit where
  "newline = 0x0A"

definition ellipsis :: code_unit where
  "ellipsis = 0x2026"

text \<open>
  ECMAScript's \<open>WhiteSpace\<close> and \<open>LineTerminator\<close> code points, the set that
  \<open>trim\<close> and \<open>trimEnd\<close> strip. All of them lie in the Basic Multilingual Plane.
\<close>

definition isWhiteSpace :: "code_unit \<Rightarrow> bool" where
  "isWhiteSpace c \<longleftrightarrow>
     c = 0x09 \<or> c = 0x0A \<or> c = 0x0B \<or> c = 0x0C \<or> c = 0x0D \<or> c = 0x20 \<or>
     c = 0xA0 \<or> c = 0x1680 \<or> (0x2000 \<le> c \<and> c \<le> 0x200A) \<or>
     c = 0x2028 \<or> c = 0x2029 \<or> c = 0x202F \<or> c = 0x205F \<or> c = 0x3000 \<or> c = 0xFEFF"

definition trimEnd :: "jsstring \<Rightarrow> jsstring" where
  "trimEnd s = rev (dropWhile isWhiteSpace (rev s))"

definition trimStart :: "jsstring \<Rightarrow> jsstring" where
  "trimStart s = dropWhile isWhiteSpace s"

definition trim :: "jsstring \<Rightarrow> jsstring" where
  "trim s = trimEnd (trimStart s)"

text \<open>
  \<open>str.slice(0, e)\<close>: a negative end counts from the end of the string, and both
  bounds are clamped to the string.
\<close>

definition slice0 :: "jsstring \<Rightarrow> int \<Rightarrow> jsstring" where
  "slice0 s e =
     (let len = int (length s);
          fin = (if e < 0 then max (len + e) 0 else min e len)
      in take (nat fin) s)"

text \<open>
  \<open>String.prototype.toLowerCase\<close> follows the case mapping of Unicode, which is a table
  of the runtime and not code of the repository (it maps, for one, the Kelvin sign
  \<open>U+212A\<close> to \<open>k\<close>). The functions that call it take it as a parameter \<open>lc\<close>, and
  what is proved about them holds for every lower-casing. On a string of ASCII code
  units the runtime's function changes the letters \<open>A\<close> to \<open>Z\<close> and nothing else:
  \<open>lowersAscii\<close> says so of a parameter, and \<open>asciiLowerCase\<close>, which does this on
  every string, stands for the runtime in the examples, whose strings are all ASCII.
\<close>

definition lowerUnit :: "code_unit \<Rightarrow> code_unit" where
  "lowerUnit c = (if 0x41 \<le> c \<and> c \<le> 0x5A then c + 0x20 else c)"

definition asciiLowerCase :: "jsstring \<Rightarrow> jsstring" where
  "asciiLowerCase s = map lowerUnit s"

definition lowersAscii :: "(jsstring \<Rightarrow> jsstring) \<Rightarrow> bool" where
  "lowersAscii lc \<longleftrightarrow> (\<forall>s. list_all (\<lambda>c. c < 0x80) s \<longrightarrow> lc s = map lowerUnit s)"

definition startsWith :: "jsstring \<Rightarrow> jsstring \<Rightarrow> bool" where
  "startsWith s p \<longleftrightarrow> prefix p s"

definition endsWith :: "jsstring \<Rightarrow> jsstring \<Rightarrow> bool" where
  "endsWith s p \<longleftrightarrow> prefix (rev p) (rev s)"

fun js_includes :: "jsstring \<Rightarrow> jsstring \<Rightarrow> bool" where
  "js_includes [] p \<longleftrightarrow> p = []"
| "js_includes (c # s) p \<longleftrightarrow> prefix p (c # s) \<or> js_includes s p"

text \<open>
  \<open>s.split(sep)\<close> for a separator of one code unit: the pieces between the separators,
  empty pieces included; the empty string splits into one empty piece. The result is
  never the empty array (\<open>js_split_nonempty\<close>), so the first branch of the
  \<open>case\<close> below is never taken.
\<close>

fun js_split :: "code_unit \<Rightarrow> jsstring \<Rightarrow> jsstring list" where
  "js_split sep [] = [[]]"
| "js_split sep (c # s) =
     (if c = sep then [] # js_split sep s
      else (case js_split sep s of
              [] \<Rightarrow> [[c]]
            | p # ps \<Rightarrow> (c # p) # ps))"

text \<open>\<open>xs.join(sep)\<close> on an array of strings.\<close>

fun js_join :: "jsstring \<Rightarrow> jsstring list \<Rightarrow> jsstring" where
  "js_join sep [] = []"
| "js_join sep [x] = x"
| "js_join sep (x # y # ys) = x @ sep @ js_join sep (y # ys)"

section \<open>Errors\<close>

text \<open>
  The code throws plain \<open>Error\<close> objects that differ in their message. Each constructor
  stands for one \<open>throw\<close> site, or for one kind of rejection by a collaborator, and
  carries the value interpolated into the message:
  \<^item> \<open>PathTraversalError resolved\<close>: thrown by \<open>resolveUnderRoot\<close>;
  \<^item> \<open>FileExistsError relativePath\<close>: thrown by \<open>generateMarkdownFile\<close>;
  \<^item> \<open>CommitMessageError inner\<close>: the \<open>catch\<close> of \<open>generateCommitMessage\<close>, wrapping the
    message of what was caught;
  \<^item> \<open>FsError code path\<close>: a rejection of \<open>fs.mkdir\<close> or \<open>fs.writeFile\<close>, which
    \<open>generateMarkdownFile\<close> passes on unchanged.
  The three message templates of the repository follow.
\<close>

datatype fs_errno = EEXIST | ENOTDIR | EISDIR | ENOENT

datatype error =
    PathTraversalError jsstring
  | FileExistsError jsstring
  | CommitMessageError jsstring
  | FsError fs_errno jsstring

definition pathTraversalMessage :: "jsstring \<Rightarrow> jsstring" where
  "pathTraversalMessage resolved = js ''Refusing to access path outside rootDir: '' @ resolved"

definition fileExistsMessage :: "jsstring \<Rightarrow> jsstring" where
  "fileExistsMessage relativePath =
     js ''File already exists at '' @ relativePath @ js ''. Pass overwrite=true to replace.''"

definition commitMessageErrorMessage :: "jsstring \<Rightarrow> jsstring" where
  "commitMessageErrorMessage inner = js ''Failed to generate commit message: '' @ inner"

section \<open>Data of the commit message synthesizer\<close>

datatype commit_type =
  Feat | Fix | Docs | Style | Refactor | Perf | Test | Build | Ci | Chore | Revert

fun typeName :: "commit_type \<Rightarrow> jsstring" where
  "typeName Feat = js ''feat''"
| "typeName Fix = js ''fix''"
| "typeName Docs = js ''docs''"
| "typeName Style = js ''style''"
| "typeName Refactor = js ''refactor''"
| "typeName Perf = js ''perf''"
| "typeName Test = js ''test''"
| "typeName Build = js ''build''"
| "typeName Ci = js ''ci''"
| "typeName Chore = js ''chore''"
| "typeName Revert = js ''revert''"

text \<open>
  What the version-control collaborator (\<open>simple-git\<close>) answers. An entry of
  \<open>status.renamed\<close> is a string or an object with a \<open>to\<close> field. Each of the three
  calls either rejects with a message (\<open>Inl\<close>) or resolves (\<open>Inr\<close>).
\<close>

datatype renamed_entry = RenamedPath jsstring | RenamedFromTo jsstring jsstring

record git_status =
  created :: "jsstring list"
  modified :: "jsstring list"
  deleted :: "jsstring list"
  renamed :: "renamed_entry list"

record git =
  checkIsRepo :: "jsstring + bool"
  status :: "jsstring + git_status"
  diffSummary :: "jsstring + jsstring list"

text \<open>
  The input object. Every optional field is an \<open>option\<close>; the defaults of the
  destructuring (\<open>includeBody = true\<close>, \<open>maxSubjectLength = 72\<close>) are applied in
  \<open>generateCommitMessage\<close>.
\<close>

record fileChange =
  rootDir :: jsstring

record generateCommitMessageInput = fileChange +
  ctype :: "commit_type option"
  scope :: "jsstring option"
  summary :: "jsstring option"
  includeBody :: "bool option"
  maxSubjectLength :: "int option"

text \<open>Truthiness of an optional string: \<open>undefined\<close> and \<open>""\<close> are falsy.\<close>

fun truthy :: "jsstring option \<Rightarrow> bool" where
  "truthy None = False"
| "truthy (Some s) = (s \<noteq> [])"

section \<open>Data of the Markdown writer and the file system\<close>

text \<open>
  A front-matter value is \<open>any\<close> in the source, and \<open>toSimpleYaml\<close> only looks at
  whether it is an array, another object, or something else, before it renders the
  value with \<open>String\<close> or \<open>JSON.stringify\<close>. The model keeps that shape and takes the
  renderings of the runtime as given: an array carries \<open>String(v)\<close> of each element, an
  object the pairs of a key and \<open>JSON.stringify(v)\<close>, anything else its
  \<open>JSON.stringify\<close>.
\<close>

datatype yaml_value =
    YArray "jsstring list"
  | YObject "(jsstring \<times> jsstring) list"
  | YScalar jsstring

record section_input =
  heading :: jsstring
  body :: "jsstring option"

record generateMarkdownFileInput = fileChange +
  relativePath :: jsstring
  title :: "jsstring option"
  content :: "jsstring option"
  sections :: "section_input list option"
  frontMatter :: "(jsstring \<times> yaml_value) list option"
  overwrite :: "bool option"

text \<open>
  The value returned by \<open>generateMarkdownFile\<close>; its field \<open>created\<close> is called
  \<open>created_new\<close> here, \<open>created\<close> being a field of the status above.
\<close>

record markdownWriteResult =
  path :: jsstring
  bytesWritten :: nat
  created_new :: bool
  overwritten :: bool

text \<open>
  The file system collaborator: a file with its text, or a directory, at each absolute
  path, a path being the list of its segments below \<open>/\<close>. The directory \<open>/\<close> itself
  (the empty list) always exists. Symbolic links, permissions and the other ways a call
  can be rejected are not modelled.
\<close>

datatype node = File jsstring | Directory

type_synonym filesystem = "jsstring list \<Rightarrow> node option"

section \<open>Scope deriver and subject truncation (\<open>src/tools.ts\<close>)\<close>

text \<open>\<open>f.split("/").filter(Boolean)\<close>: the non-empty segments of a path.\<close>

definition parts :: "jsstring \<Rightarrow> jsstring list" where
  "parts f = filter (\<lambda>s. s \<noteq> []) (js_split slash f)"

text \<open>The \<open>for\<close> loop of \<open>topLevelScope\<close>; \<open>None\<close> when the loop falls through.\<close>

fun topLevelScope_scan :: "jsstring list \<Rightarrow> jsstring option" where
  "topLevelScope_scan [] = None"
| "topLevelScope_scan (f # files) =
     (let ps = parts f in
      if length ps > 1 then Some (hd ps) else topLevelScope_scan files)"

definition topLevelScope :: "jsstring list \<Rightarrow> jsstring option" where
  "topLevelScope files =
     (case topLevelScope_scan files of
        Some s \<Rightarrow> Some s
      | None \<Rightarrow>
          if length files = 1 then
            (let f = hd files in
             if f = [] then None
             else (let ps = parts f in if length ps > 1 then Some (hd ps) else None))
          else None)"

text \<open>
  The simplification that the specification asks about: the scan alone, with absent
  returned after the loop and no branch for a single file.
\<close>

fun topLevelScope_simplified :: "jsstring list \<Rightarrow> jsstring option" where
  "topLevelScope_simplified [] = None"
| "topLevelScope_simplified (f # files) =
     (if length (parts f) > 1 then Some (hd (parts f)) else topLevelScope_simplified files)"

definition truncate :: "jsstring \<Rightarrow> int \<Rightarrow> jsstring" where
  "truncate str mx =
     (if int (length str) > mx then trimEnd (slice0 str (mx - 1)) @ [ellipsis] else str)"

text \<open>
  A number inside a template literal: the decimal digits of a non-negative integer
  (here always the length of an array).
\<close>

fun showNat :: "nat \<Rightarrow> jsstring" where
  "showNat n =
     (if n < 10 then [of_nat (48 + n)]
      else showNat (n div 10) @ [of_nat (48 + n mod 10)])"

declare showNat.simps [simp del]

section \<open>File classifier (\<open>src/tools.ts\<close>)\<close>

text \<open>
  The three predicates that lower-case a path take the lower-casing \<open>lc\<close> of the
  runtime as their first argument.
\<close>

definition excludeFiles :: "jsstring list" where
  "excludeFiles =
     [js ''dist'', js ''bun.lock'', js ''.git'', js ''node_modules'', js ''build'',
      js ''coverage'', js ''.next'', js ''.turbo'', js ''out'']"

text \<open>\<open>filePath.replace(/\\/g, "/")\<close>: every backslash becomes a forward slash.\<close>

definition unifySeparators :: "jsstring \<Rightarrow> jsstring" where
  "unifySeparators filePath = map (\<lambda>c. if c = backslash then slash else c) filePath"

definition shouldExclude :: "jsstring \<Rightarrow> bool" where
  "shouldExclude filePath =
     (let p = unifySeparators filePath in
      p \<in> set excludeFiles \<or>
      startsWith p (js ''dist/'') \<or>
      startsWith p (js ''node_modules/'') \<or>
      startsWith p (js ''.git/'') \<or>
      startsWith p (js ''build/'') \<or>
      startsWith p (js ''coverage/'') \<or>
      startsWith p (js ''.next/'') \<or>
      startsWith p (js ''.turbo/'') \<or>
      startsWith p (js ''out/'') \<or>
      p = js ''dist'' \<or>
      p = js ''node_modules'' \<or>
      p = js ''.git'' \<or>
      p = js ''build'' \<or>
      p = js ''coverage'' \<or>
      p = js ''.next'' \<or>
      p = js ''.turbo'' \<or>
      p = js ''out'')"

text \<open>
  Node's POSIX \<open>path.basename(p)\<close> with no suffix argument: trailing slashes are
  dropped and the result is what follows the last remaining slash, that is, the last
  non-empty segment of the path, or the empty string when there is none.
\<close>

definition basename :: "jsstring \<Rightarrow> jsstring" where
  "basename p = (if parts p = [] then [] else last (parts p))"

definition isDocFile :: "(jsstring \<Rightarrow> jsstring) \<Rightarrow> jsstring \<Rightarrow> bool" where
  "isDocFile lc filePath =
     (let p = lc filePath in
      endsWith p (js ''.md'') \<or>
      endsWith p (js ''.mdx'') \<or>
      js_includes p (js ''docs/'') \<or>
      basename p = js ''readme.md'')"

definition isTestFile :: "(jsstring \<Rightarrow> jsstring) \<Rightarrow> jsstring \<Rightarrow> bool" where
  "isTestFile lc filePath =
     (let p = lc filePath in
      js_includes p (js ''/__tests__/'') \<or>
      endsWith p (js ''.test.ts'') \<or>
      endsWith p (js ''.test.tsx'') \<or>
      endsWith p (js ''.spec.ts'') \<or>
      endsWith p (js ''.spec.tsx'') \<or>
      endsWith p (js ''.test.js'') \<or>
      endsWith p (js ''.spec.js''))"

definition configNames :: "jsstring list" where
  "configNames =
     [js ''package.json'', js ''tsconfig.json'', js ''bun.lock'', js ''pnpm-lock.yaml'',
      js ''yarn.lock'', js ''.eslintrc.json'', js ''.eslintrc.js'', js ''.prettierrc'',
      js ''.prettierrc.json'', js ''.npmrc'', js ''.nvmrc'', js ''.editorconfig'',
      js ''dockerfile'']"

definition isConfigFile :: "(jsstring \<Rightarrow> jsstring) \<Rightarrow> jsstring \<Rightarrow> bool" where
  "isConfigFile lc filePath =
     (let base = lc (basename filePath) in
      base \<in> set configNames \<or>
      js_includes filePath (js ''.github/workflows/'') \<or>
      endsWith base (js ''.config.js'') \<or>
      endsWith base (js ''.config.ts'') \<or>
      endsWith base (js ''rc''))"

section \<open>Commit message synthesizer (\<open>src/tools.ts\<close>)\<close>

fun renamedTo :: "renamed_entry \<Rightarrow> jsstring" where
  "renamedTo (RenamedPath r) = r"
| "renamedTo (RenamedFromTo src dst) = dst"

definition changedFiles :: "git_status \<Rightarrow> jsstring list" where
  "changedFiles st =
     (let renamedPaths = filter (\<lambda>x. x \<noteq> []) (map renamedTo (renamed st)) in
      filter (\<lambda>f. f \<noteq> [] \<and> \<not> shouldExclude f)
        (created st @ modified st @ deleted st @ renamedPaths))"

definition nonExcludedSummaryFiles :: "jsstring list \<Rightarrow> jsstring list" where
  "nonExcludedSummaryFiles files = filter (\<lambda>f. \<not> shouldExclude f) files"

definition inferredType ::
  "(jsstring \<Rightarrow> jsstring) \<Rightarrow> commit_type option \<Rightarrow> git_status \<Rightarrow> jsstring list
     \<Rightarrow> commit_type" where
  "inferredType lc typ st nes =
     (let onlyDocs = (length nes > 0 \<and> list_all (isDocFile lc) nes);
          onlyTests = (length nes > 0 \<and> list_all (isTestFile lc) nes);
          onlyConfig = (length nes > 0 \<and> list_all (isConfigFile lc) nes);
          anyAdded = list_ex (\<lambda>f. \<not> shouldExclude f) (created st);
          anyDeleted = list_ex (\<lambda>f. \<not> shouldExclude f) (deleted st)
      in case typ of
           Some t \<Rightarrow> t
         | None \<Rightarrow>
             if onlyDocs then Docs
             else if onlyTests then Test
             else if onlyConfig then Chore
             else if anyAdded then Feat
             else if anyDeleted then Chore
             else Refactor)"

definition derivedScope :: "jsstring option \<Rightarrow> jsstring list \<Rightarrow> jsstring option" where
  "derivedScope sc nes = (if truthy sc then sc else topLevelScope nes)"

definition subject :: "jsstring option \<Rightarrow> git_status \<Rightarrow> jsstring list \<Rightarrow> jsstring" where
  "subject summ st nes =
     (let cf = changedFiles st in
      if truthy summ then the summ
      else if length cf = 1 then
        (let file = hd cf; base = basename file in
         if file \<in> set (created st) then js ''add '' @ base
         else if file \<in> set (deleted st) then js ''remove '' @ base
         else if file \<in> set (modified st) then js ''update '' @ base
         else js ''update '' @ base)
      else if length cf > 1 then
        (let s = topLevelScope nes in
         if truthy s then js ''update '' @ the s @ js '' files''
         else js ''update '' @ showNat (length cf) @ js '' files'')
      else js ''update project files'')"

definition header ::
  "commit_type \<Rightarrow> jsstring option \<Rightarrow> jsstring \<Rightarrow> int \<Rightarrow> jsstring" where
  "header t ds subj mx =
     typeName t @ (if truthy ds then js ''('' @ the ds @ js '')'' else [])
       @ js '': '' @ truncate subj mx"

definition kindPrefix :: "(jsstring \<Rightarrow> jsstring) \<Rightarrow> jsstring \<Rightarrow> jsstring" where
  "kindPrefix lc f =
     (if isDocFile lc f then js ''docs''
      else if isTestFile lc f then js ''test''
      else if isConfigFile lc f then js ''config''
      else js ''code'')"

definition bodyLines :: "(jsstring \<Rightarrow> jsstring) \<Rightarrow> jsstring list \<Rightarrow> jsstring list" where
  "bodyLines lc nes =
     (let showFiles = take 20 nes;
          lines = map (\<lambda>f. js ''- '' @ kindPrefix lc f @ js '': '' @ f) showFiles
      in if length nes > length showFiles
         then lines @ [js ''- '' @ [ellipsis] @ js ''and ''
                         @ showNat (length nes - length showFiles) @ js '' more file(s)'']
         else lines)"

definition generateCommitMessage ::
  "(jsstring \<Rightarrow> jsstring) \<Rightarrow> git \<Rightarrow> generateCommitMessageInput \<Rightarrow> error + jsstring" where
  "generateCommitMessage lc g req =
     (case checkIsRepo g of
        Inl msg \<Rightarrow> Inl (CommitMessageError msg)
      | Inr isRepo \<Rightarrow>
          if \<not> isRepo then Inl (CommitMessageError (js ''Not a git repository: '' @ rootDir req))
          else
            (case status g of
               Inl msg \<Rightarrow> Inl (CommitMessageError msg)
             | Inr st \<Rightarrow>
                 (case diffSummary g of
                    Inl msg \<Rightarrow> Inl (CommitMessageError msg)
                  | Inr files \<Rightarrow>
                      (let nes = nonExcludedSummaryFiles files;
                           hdr = header (inferredType lc (ctype req) st nes)
                                   (derivedScope (scope req) nes)
                                   (subject (summary req) st nes)
                                   (case maxSubjectLength req of None \<Rightarrow> 72 | Some m \<Rightarrow> m)
                       in if \<not> (case includeBody req of None \<Rightarrow> True | Some b \<Rightarrow> b)
                          then Inr hdr
                          else Inr (js_join [newline] ([hdr, []] @ bodyLines lc nes))))))"

section \<open>Node's POSIX \<open>path\<close> module\<close>

text \<open>
  \<open>normalizeString\<close> of Node's \<open>path\<close> module, read segment by segment: an empty segment
  and \<open>.\<close> are skipped; \<open>..\<close> removes the last segment kept so far, unless there is
  none or it is itself \<open>..\<close>, in which case \<open>..\<close> is kept when the path may climb above
  its start (\<open>allowAboveRoot\<close>) and dropped otherwise; any other segment is kept. The
  segments kept are joined with \<open>/\<close>.
\<close>

fun normalizeSegs :: "bool \<Rightarrow> jsstring list \<Rightarrow> jsstring list \<Rightarrow> jsstring list" where
  "normalizeSegs allowAboveRoot res [] = res"
| "normalizeSegs allowAboveRoot res (s # ss) =
     (if s = [] \<or> s = js ''.'' then normalizeSegs allowAboveRoot res ss
      else if s = js ''..'' then
        (if res \<noteq> [] \<and> last res \<noteq> js ''..'' then normalizeSegs allowAboveRoot (butlast res) ss
         else if allowAboveRoot then normalizeSegs allowAboveRoot (res @ [js ''..'']) ss
         else normalizeSegs allowAboveRoot res ss)
      else normalizeSegs allowAboveRoot (res @ [s]) ss)"

definition normalizeString :: "jsstring \<Rightarrow> bool \<Rightarrow> jsstring" where
  "normalizeString p allowAboveRoot =
     js_join [slash] (normalizeSegs allowAboveRoot [] (js_split slash p))"

text \<open>
  The loop of \<open>path.resolve\<close>: the arguments from right to left and then the working
  directory, each non-empty one put in front of what is there, until one is absolute.
  The list given here is in the order of the loop.
\<close>

fun resolve_loop :: "jsstring list \<Rightarrow> jsstring \<Rightarrow> jsstring \<times> bool" where
  "resolve_loop [] resolvedPath = (resolvedPath, False)"
| "resolve_loop (p # ps) resolvedPath =
     (if p = [] then resolve_loop ps resolvedPath
      else if hd p = slash then (p @ [slash] @ resolvedPath, True)
      else resolve_loop ps (p @ [slash] @ resolvedPath))"

text \<open>\<open>path.resolve(...args)\<close> in the working directory \<open>cwd\<close> (\<open>process.cwd()\<close>).\<close>

definition path_resolve :: "jsstring \<Rightarrow> jsstring list \<Rightarrow> jsstring" where
  "path_resolve cwd args =
     (case resolve_loop (rev args @ [cwd]) [] of
        (resolvedPath, resolvedAbsolute) \<Rightarrow>
          (let normalized = normalizeString resolvedPath (\<not> resolvedAbsolute) in
           if resolvedAbsolute then slash # normalized
           else if length normalized > 0 then normalized
           else js ''.''))"

text \<open>
  \<open>path.dirname(p)\<close>: the loop runs from the last code unit down to the second one,
  skips trailing slashes and stops at the first slash after them; the result is what is
  in front of that slash.
\<close>

definition path_dirname :: "jsstring \<Rightarrow> jsstring" where
  "path_dirname p =
     (if p = [] then js ''.''
      else
        (let hasRoot = (hd p = slash);
             afterTrailing = dropWhile (\<lambda>c. c = slash) (rev (tl p));
             fromSlash = dropWhile (\<lambda>c. c \<noteq> slash) afterTrailing
         in if fromSlash = [] then (if hasRoot then js ''/'' else js ''.'')
            else if hasRoot \<and> tl fromSlash = [] then js ''//''
            else hd p # rev (tl fromSlash)))"

text \<open>
  Lists of segments that are the segments of a path: none is empty or has a slash in it.
  A list is in normal form when, in addition, no segment is \<open>.\<close> or \<open>..\<close>; the paths that
  \<open>path.resolve\<close> returns in an absolute working directory are \<open>/\<close> followed by such a
  list joined with slashes.
\<close>

definition segs_ok :: "jsstring list \<Rightarrow> bool" where
  "segs_ok R \<longleftrightarrow> (\<forall>s \<in> set R. s \<noteq> [] \<and> slash \<notin> set s)"

definition normal :: "jsstring list \<Rightarrow> bool" where
  "normal R \<longleftrightarrow> (\<forall>s \<in> set R. s \<noteq> [] \<and> slash \<notin> set s \<and> s \<noteq> js ''.'' \<and> s \<noteq> js ''..'')"

section \<open>Path guard (\<open>src/lib/path.ts\<close>)\<close>

text \<open>
  \<open>path.resolve\<close> reads the working directory of the process, so the two functions of
  the guard take it as their first argument here; \<open>path.sep\<close> is the slash.
\<close>

definition resolveUnderRoot :: "jsstring \<Rightarrow> jsstring \<Rightarrow> jsstring \<Rightarrow> error + jsstring" where
  "resolveUnderRoot cwd root_dir targetPath =
     (let root = path_resolve cwd [root_dir];
          resolved = path_resolve cwd [root, targetPath];
          inside = (resolved = root \<or> startsWith resolved (root @ [slash]))
      in if \<not> inside then Inl (PathTraversalError resolved) else Inr resolved)"

definition isPathInsideRoot :: "jsstring \<Rightarrow> jsstring \<Rightarrow> jsstring \<Rightarrow> bool" where
  "isPathInsideRoot cwd root_dir targetPath =
     (let root = path_resolve cwd [root_dir];
          resolved = path_resolve cwd [root, targetPath]
      in resolved = root \<or> startsWith resolved (root @ [slash]))"

section \<open>File system calls\<close>

text \<open>
  How the system reads an absolute path: its segments, with empty segments and \<open>.\<close>
  skipped and \<open>..\<close> going one directory up, not above \<open>/\<close>.
\<close>

definition pathKey :: "jsstring \<Rightarrow> jsstring list" where
  "pathKey p = normalizeSegs False [] (js_split slash p)"

definition lookup :: "filesystem \<Rightarrow> jsstring list \<Rightarrow> node option" where
  "lookup fs k = (if k = [] then Some Directory else fs k)"

text \<open>
  Every call walks down from \<open>/\<close> through the directories in front of the last
  segment of its path: a missing one rejects the call with \<open>ENOENT\<close>, a file in the
  way with \<open>ENOTDIR\<close>.
\<close>

fun walkDirs :: "filesystem \<Rightarrow> jsstring list \<Rightarrow> jsstring list \<Rightarrow> fs_errno option" where
  "walkDirs fs pre [] = None"
| "walkDirs fs pre (s # ss) =
     (case lookup fs (pre @ [s]) of
        Some Directory \<Rightarrow> walkDirs fs (pre @ [s]) ss
      | Some (File t) \<Rightarrow> Some ENOTDIR
      | None \<Rightarrow> Some ENOENT)"

text \<open>
  \<open>fs.mkdir(p, { recursive: true })\<close>: walking down from \<open>/\<close>, a directory that is there
  is entered, a missing one is created, and a file in the way rejects the call
  (\<open>EEXIST\<close> for the last segment, \<open>ENOTDIR\<close> before it). The file system reached is
  returned in both cases.
\<close>

fun mkdirp ::
  "jsstring \<Rightarrow> filesystem \<Rightarrow> jsstring list \<Rightarrow> jsstring list \<Rightarrow> error option \<times> filesystem" where
  "mkdirp p fs pre [] = (None, fs)"
| "mkdirp p fs pre (s # ss) =
     (case lookup fs (pre @ [s]) of
        Some (File t) \<Rightarrow> (Some (FsError (if ss = [] then EEXIST else ENOTDIR) p), fs)
      | Some Directory \<Rightarrow> mkdirp p fs (pre @ [s]) ss
      | None \<Rightarrow> mkdirp p (fs(pre @ [s] \<mapsto> Directory)) (pre @ [s]) ss)"

definition ensureDir :: "filesystem \<Rightarrow> jsstring \<Rightarrow> error option \<times> filesystem" where
  "ensureDir fs dirPath = mkdirp dirPath fs [] (pathKey dirPath)"

text \<open>
  \<open>fs.stat(p)\<close> resolves exactly when the walk to \<open>p\<close> succeeds and there is a file or
  a directory at \<open>p\<close>.
\<close>

definition stat_ok :: "filesystem \<Rightarrow> jsstring \<Rightarrow> bool" where
  "stat_ok fs p \<longleftrightarrow>
     (let k = pathKey p in walkDirs fs [] (butlast k) = None \<and> lookup fs k \<noteq> None)"

text \<open>
  \<open>fs.writeFile(p, data)\<close> replaces or creates the file at \<open>p\<close>; it is rejected when
  the walk to \<open>p\<close> fails and when \<open>p\<close> is a directory (\<open>EISDIR\<close>).
\<close>

definition writeFile :: "filesystem \<Rightarrow> jsstring \<Rightarrow> jsstring \<Rightarrow> error option \<times> filesystem" where
  "writeFile fs p data =
     (let k = pathKey p in
      case walkDirs fs [] (butlast k) of
        Some e \<Rightarrow> (Some (FsError e p), fs)
      | None \<Rightarrow>
          (case lookup fs k of
             Some Directory \<Rightarrow> (Some (FsError EISDIR p), fs)
           | _ \<Rightarrow> (None, fs(k \<mapsto> File data))))"

section \<open>Markdown file writer (\<open>src/tools.ts\<close>)\<close>

fun yamlEntry :: "jsstring \<times> yaml_value \<Rightarrow> jsstring list" where
  "yamlEntry (key, YArray vs) = (key @ js '':'') # map (\<lambda>v. js ''  - '' @ v) vs"
| "yamlEntry (key, YObject kvs) =
     (key @ js '':'') # map (\<lambda>(k, v). js ''  '' @ k @ js '': '' @ v) kvs"
| "yamlEntry (key, YScalar v) = [key @ js '': '' @ v]"

definition toSimpleYaml :: "(jsstring \<times> yaml_value) list \<Rightarrow> jsstring" where
  "toSimpleYaml data =
     js_join [newline] ([js ''---''] @ concat (map yamlEntry data) @ [js ''---''])"

text \<open>
  \<open>Buffer.byteLength(s, "utf8")\<close>: one byte for a code unit below \<open>0x80\<close>, two below
  \<open>0x800\<close>, four for a surrogate pair, and three for any other code unit (a surrogate
  without its partner is written as \<open>U+FFFD\<close>).
\<close>

fun utf8Length :: "jsstring \<Rightarrow> nat" where
  "utf8Length [] = 0"
| "utf8Length [c] = (if c < 0x80 then 1 else if c < 0x800 then 2 else 3)"
| "utf8Length (c # d # s) =
     (if c < 0x80 then 1 + utf8Length (d # s)
      else if c < 0x800 then 2 + utf8Length (d # s)
      else if 0xD800 \<le> c \<and> c \<le> 0xDBFF \<and> 0xDC00 \<le> d \<and> d \<le> 0xDFFF then 4 + utf8Length s
      else 3 + utf8Length (d # s))"

fun sectionParts :: "section_input \<Rightarrow> jsstring list" where
  "sectionParts sec =
     ([newline] @ js ''## '' @ heading sec)
       # (if truthy (body sec) then [the (body sec)] else [])"

definition documentParts :: "generateMarkdownFileInput \<Rightarrow> jsstring list" where
  "documentParts req =
     (case frontMatter req of
        Some fm \<Rightarrow> if length fm > 0 then [toSimpleYaml fm] else []
      | None \<Rightarrow> [])
     @ (if truthy (title req) then [js ''# '' @ the (title req)] else [])
     @ (case sections req of
          Some secs \<Rightarrow> concat (map sectionParts secs)
        | None \<Rightarrow> [])
     @ (if truthy (content req) then [the (content req)] else [])"

definition finalContent :: "generateMarkdownFileInput \<Rightarrow> jsstring" where
  "finalContent req = trim (js_join [newline, newline] (documentParts req)) @ [newline]"

definition generateMarkdownFile ::
  "jsstring \<Rightarrow> generateMarkdownFileInput \<Rightarrow> filesystem
     \<Rightarrow> (error + markdownWriteResult) \<times> filesystem" where
  "generateMarkdownFile cwd req fs =
     (case resolveUnderRoot cwd (rootDir req) (relativePath req) of
        Inl e \<Rightarrow> (Inl e, fs)
      | Inr fullPath \<Rightarrow>
          (case ensureDir fs (path_dirname fullPath) of
             (Some e, fs1) \<Rightarrow> (Inl e, fs1)
           | (None, fs1) \<Rightarrow>
               (let exists = stat_ok fs1 fullPath;
                    ow = (case overwrite req of None \<Rightarrow> False | Some b \<Rightarrow> b)
                in if exists \<and> \<not> ow then (Inl (FileExistsError (relativePath req)), fs1)
                   else
                     (case writeFile fs1 fullPath (finalContent req) of
                        (Some e, fs2) \<Rightarrow> (Inl e, fs2)
                      | (None, fs2) \<Rightarrow>
                          (Inr \<lparr>path = fullPath,
                                bytesWritten = utf8Length (finalContent req),
                                created_new = \<not> exists,
                                overwritten = (exists \<and> ow)\<rparr>,
                           fs2)))))"

section \<open>Example inputs\<close>

text \<open>
  One created file \<open>src/a.ts\<close>, reported by the status, with a diff summary that
  lists it and with an empty one; and a request with no overrides.
\<close>


definition ex_status :: git_status where
  "ex_status = \<lparr>created = [js ''src/a.ts''], modified = [], deleted = [], renamed = []\<rparr>"
definition ex_git :: git where
  "ex_git = \<lparr>checkIsRepo = Inr True, status = Inr ex_status, diffSummary = Inr [js ''src/a.ts'']\<rparr>"
definition ex_git_staged :: git where
  "ex_git_staged = \<lparr>checkIsRepo = Inr True, status = Inr ex_status, diffSummary = Inr []\<rparr>"
definition ex_request :: generateCommitMessageInput where
  "ex_request = \<lparr>rootDir = js ''/repo'', ctype = None, scope = None, summary = None,
     includeBody = None, maxSubjectLength = None\<rparr>"

text \<open>
  Five changed files of four kinds, one of them under an excluded directory.
\<close>

definition ex_status_mixed :: git_status where
  "ex_status_mixed = \<lparr>created = [],
     modified = [js ''README.md'', js ''src/a.test.ts'', js ''package.json'', js ''src/a.ts'', js ''dist/a.js''],
     deleted = [], renamed = []\<rparr>"
definition ex_git_mixed :: git where
  "ex_git_mixed = \<lparr>checkIsRepo = Inr True, status = Inr ex_status_mixed,
     diffSummary = Inr [js ''README.md'', js ''src/a.test.ts'', js ''package.json'', js ''src/a.ts'', js ''dist/a.js'']\<rparr>"

text \<open>
  Twenty-one changed files, \<open>a.ts\<close> to \<open>u.ts\<close>.
\<close>

definition ex_many_files :: "jsstring list" where
  "ex_many_files = map (\<lambda>c. [c] @ js ''.ts'') (js ''abcdefghijklmnopqrstu'')"

definition ex_git_many :: git where
  "ex_git_many = \<lparr>checkIsRepo = Inr True,
     status = Inr \<lparr>created = [], modified = ex_many_files, deleted = [], renamed = []\<rparr>,
     diffSummary = Inr ex_many_files\<rparr>"

text \<open>
  One created file whose name has a space as its ninth character after \<open>add\<close>, and
  a request for the header alone with a maximum subject length of 10.
\<close>

definition ex_status_spaced :: git_status where
  "ex_status_spaced = \<lparr>created = [js ''abcd efghij.ts''], modified = [], deleted = [], renamed = []\<rparr>"
definition ex_git_spaced :: git where
  "ex_git_spaced = \<lparr>checkIsRepo = Inr True, status = Inr ex_status_spaced,
     diffSummary = Inr [js ''abcd efghij.ts'']\<rparr>"
definition ex_request_max10 :: generateCommitMessageInput where
  "ex_request_max10 = \<lparr>rootDir = js ''/repo'', ctype = None, scope = None, summary = None,
     includeBody = Some False, maxSubjectLength = Some 10\<rparr>"

text \<open>
  Requests to the Markdown writer: a file below the root \<open>/srv\<close>, the path
  \<open>../outside.md\<close> under a root that is itself named \<open>outside.md\<close>, and the same path
  under the root \<open>/srv\<close>; the file system with nothing
  in it but \<open>/\<close>, and one in which \<open>/srv/notes.md\<close> exists.
\<close>

definition ex_md_request :: generateMarkdownFileInput where
  "ex_md_request = \<lparr>rootDir = js ''/srv'', relativePath = js ''notes.md'', title = Some (js ''T''),
     content = None, sections = None, frontMatter = None, overwrite = None\<rparr>"

definition ex_md_outside :: generateMarkdownFileInput where
  "ex_md_outside = \<lparr>rootDir = js ''/srv/outside.md'', relativePath = js ''../outside.md'',
     title = Some (js ''T''), content = None, sections = None, frontMatter = None,
     overwrite = None\<rparr>"

definition ex_md_parent :: generateMarkdownFileInput where
  "ex_md_parent = \<lparr>rootDir = js ''/srv'', relativePath = js ''../outside.md'',
     title = Some (js ''T''), content = None, sections = None, frontMatter = None,
     overwrite = None\<rparr>"

definition ex_fs_empty :: filesystem where
  "ex_fs_empty = Map.empty"

definition ex_fs :: filesystem where
  "ex_fs = [[js ''srv''] \<mapsto> Directory, [js ''srv'', js ''notes.md''] \<mapsto> File (js ''old'')]"

section \<open>Basic facts about the string operations\<close>

lemma length_trimEnd_le: "length (trimEnd s) \<le> length s"
  unfolding trimEnd_def by (simp add: length_dropWhile_le order_trans[OF length_dropWhile_le])

lemma js_split_nonempty: "js_split sep s \<noteq> []"
  by (induction s) (auto split: list.splits)

lemma topLevelScope_scan_find:
  "topLevelScope_scan files =
     map_option (\<lambda>f. hd (parts f)) (find (\<lambda>f. length (parts f) > 1) files)"
  by (induction files) (auto simp: Let_def)

lemma topLevelScope_scan_simplified:
  "topLevelScope_scan files = topLevelScope_simplified files"
  by (induction files) (auto simp: Let_def)

lemma topLevelScope_fallback_dead:
  assumes "topLevelScope_scan files = None" and "length files = 1"
  shows "\<not> length (parts (hd files)) > 1"
proof -
  from assms(2) obtain f where f: "files = [f]"
    by (cases files) auto
  with assms(1) show ?thesis
    by (auto simp: Let_def split: if_splits)
qed

lemma topLevelScope_eq_scan: "topLevelScope files = topLevelScope_scan files"
proof (cases "topLevelScope_scan files")
  case None
  then show ?thesis
    using topLevelScope_fallback_dead[OF None]
    by (auto simp: topLevelScope_def Let_def)
next
  case (Some s)
  then show ?thesis by (simp add: topLevelScope_def)
qed

section \<open>Facts about the commit message synthesizer\<close>

lemma generateCommitMessage_success:
  assumes "checkIsRepo g = Inr True" and "status g = Inr st" and "diffSummary g = Inr files"
  shows "generateCommitMessage lc g req =
     Inr (let nes = nonExcludedSummaryFiles files;
              hdr = header (inferredType lc (ctype req) st nes) (derivedScope (scope req) nes)
                      (subject (summary req) st nes)
                      (case maxSubjectLength req of None \<Rightarrow> 72 | Some m \<Rightarrow> m)
          in if includeBody req = Some False then hdr
             else js_join [newline] ([hdr, []] @ bodyLines lc nes))"
  using assms by (auto simp: generateCommitMessage_def Let_def split: option.splits)

lemma inferredType_override: "inferredType lc (Some t) st nes = t"
  by (simp add: inferredType_def)

lemma inferredType_chain:
  "nes \<noteq> [] \<Longrightarrow> inferredType lc None st nes =
     (if list_all (isDocFile lc) nes then Docs
      else if list_all (isTestFile lc) nes then Test
      else if list_all (isConfigFile lc) nes then Chore
      else if (\<exists>f \<in> set (created st). \<not> shouldExclude f) then Feat
      else if (\<exists>f \<in> set (deleted st). \<not> shouldExclude f) then Chore
      else Refactor)"
  by (simp add: inferredType_def list_ex_iff)

lemma header_starts:
  "\<exists>rest. header t ds subj mx = typeName t @ rest \<and> (prefix (js ''('') rest \<or> prefix (js '': '') rest)"
  by (simp add: header_def)

lemma js_join_header:
  "\<exists>body. js_join sep ([hdr, []] @ ls) = hdr @ body"
  by (cases ls) auto

lemma message_starts:
  assumes "checkIsRepo g = Inr True" and "status g = Inr st" and "diffSummary g = Inr files"
  shows "\<exists>rest. generateCommitMessage lc g req =
            Inr (typeName (inferredType lc (ctype req) st (nonExcludedSummaryFiles files)) @ rest)
          \<and> (prefix (js ''('') rest \<or> prefix (js '': '') rest)"
proof -
  let ?nes = "nonExcludedSummaryFiles files"
  let ?hdr = "header (inferredType lc (ctype req) st ?nes) (derivedScope (scope req) ?nes)
                      (subject (summary req) st ?nes)
                      (case maxSubjectLength req of None \<Rightarrow> 72 | Some m \<Rightarrow> m)"
  obtain rest where r: "?hdr = typeName (inferredType lc (ctype req) st ?nes) @ rest"
      "prefix (js ''('') rest \<or> prefix (js '': '') rest"
    using header_starts by blast
  obtain body where b: "js_join [newline] ([?hdr, []] @ bodyLines lc ?nes) = ?hdr @ body"
    using js_join_header by blast
  have "generateCommitMessage lc g req = Inr (?hdr @ (if includeBody req = Some False then [] else body))"
    using generateCommitMessage_success[OF assms, of lc req] b by (simp add: Let_def)
  then have "generateCommitMessage lc g req =
     Inr (typeName (inferredType lc (ctype req) st ?nes) @ (rest @ (if includeBody req = Some False then [] else body)))"
    using r(1) by simp
  moreover have "prefix (js ''('') (rest @ (if includeBody req = Some False then [] else body))
      \<or> prefix (js '': '') (rest @ (if includeBody req = Some False then [] else body))"
    using r(2) by (auto simp: prefix_def)
  ultimately show ?thesis by blast
qed

lemma src_a_not_excluded: "\<not> shouldExclude (js ''src/a.ts'')"
  by (simp add: shouldExclude_def unifySeparators_def excludeFiles_def startsWith_def js_def backslash_def slash_def)
lemma src_a_parts: "parts (js ''src/a.ts'') = [js ''src'', js ''a.ts'']"
  by (simp add: parts_def js_def slash_def)
lemma lowersAscii_asciiLowerCase: "lowersAscii asciiLowerCase"
  by (simp add: lowersAscii_def asciiLowerCase_def)

lemma src_a_lower:
  assumes "lowersAscii lc"
  shows "lc (js ''src/a.ts'') = js ''src/a.ts''" and "lc (js ''a.ts'') = js ''a.ts''"
proof -
  have a: "list_all (\<lambda>c. c < 0x80) (js ''src/a.ts'')" "list_all (\<lambda>c. c < 0x80) (js ''a.ts'')"
    by (simp_all add: js_def)
  have b: "map lowerUnit (js ''src/a.ts'') = js ''src/a.ts''"
    "map lowerUnit (js ''a.ts'') = js ''a.ts''"
    by (simp_all add: lowerUnit_def js_def)
  from assms a(1) have "lc (js ''src/a.ts'') = map lowerUnit (js ''src/a.ts'')"
    unfolding lowersAscii_def by blast
  with b(1) show "lc (js ''src/a.ts'') = js ''src/a.ts''" by simp
  from assms a(2) have "lc (js ''a.ts'') = map lowerUnit (js ''a.ts'')"
    unfolding lowersAscii_def by blast
  with b(2) show "lc (js ''a.ts'') = js ''a.ts''" by simp
qed

lemma src_a_basename: "basename (js ''src/a.ts'') = js ''a.ts''"
  by (simp add: basename_def src_a_parts)
lemma src_a_not_doc: "lowersAscii lc \<Longrightarrow> \<not> isDocFile lc (js ''src/a.ts'')"
  by (simp add: isDocFile_def src_a_lower src_a_basename endsWith_def) (simp add: js_def)

lemma src_a_not_test: "lowersAscii lc \<Longrightarrow> \<not> isTestFile lc (js ''src/a.ts'')"
  by (simp add: isTestFile_def src_a_lower endsWith_def) (simp add: js_def)

lemma src_a_not_config: "lowersAscii lc \<Longrightarrow> \<not> isConfigFile lc (js ''src/a.ts'')"
  by (simp add: isConfigFile_def src_a_lower src_a_basename endsWith_def configNames_def)
     (simp add: js_def)

lemmas src_a_kinds_ascii =
  src_a_not_doc[OF lowersAscii_asciiLowerCase] src_a_not_test[OF lowersAscii_asciiLowerCase]
  src_a_not_config[OF lowersAscii_asciiLowerCase]

lemma src_a_scope: "topLevelScope [js ''src/a.ts''] = Some (js ''src'')"
  by (simp add: topLevelScope_def src_a_parts)

lemma truncate_short: "int (length s) \<le> mx \<Longrightarrow> truncate s mx = s"
  by (simp add: truncate_def)

lemma trimEnd_no_trailing:
  assumes "s \<noteq> []" and "\<not> isWhiteSpace (last s)"
  shows "trimEnd s = s"
proof -
  from assms(1) obtain ys c where s: "s = ys @ [c]"
    by (metis rev_exhaust)
  with assms(2) show ?thesis
    by (simp add: trimEnd_def)
qed

lemma truncate_long:
  assumes "int (length s) > mx" and "0 < mx"
  shows "truncate s mx = trimEnd (take (nat (mx - 1)) s) @ [ellipsis]"
  using assms by (simp add: truncate_def slice0_def Let_def min_def)

lemma js_join_header_rest:
  "\<exists>body. js_join [newline] ([hdr, []] @ ls) = hdr @ body \<and> (body = [] \<or> hd body = newline)"
  by (cases ls) auto

lemma bodyLines_eq:
  "bodyLines lc nes =
     map (\<lambda>f. js ''- '' @ kindPrefix lc f @ js '': '' @ f) (take 20 nes)
     @ (if length nes > 20
        then [js ''- '' @ [ellipsis] @ js ''and '' @ showNat (length nes - 20) @ js '' more file(s)'']
        else [])"
  by (auto simp: bodyLines_def Let_def min_def)

lemma ex_mixed_excluded:
  "\<not> shouldExclude (js ''README.md'')" "\<not> shouldExclude (js ''src/a.test.ts'')"
  "\<not> shouldExclude (js ''package.json'')" "shouldExclude (js ''dist/a.js'')"
  by code_simp+

lemma ex_mixed_kinds:
  "isDocFile asciiLowerCase (js ''README.md'')"
  "\<not> isDocFile asciiLowerCase (js ''src/a.test.ts'')" "isTestFile asciiLowerCase (js ''src/a.test.ts'')"
  "\<not> isDocFile asciiLowerCase (js ''package.json'')" "\<not> isTestFile asciiLowerCase (js ''package.json'')"
  "isConfigFile asciiLowerCase (js ''package.json'')"
  by code_simp+

lemma ex_mixed_nes:
  "filter (\<lambda>f. \<not> shouldExclude f)
     [js ''README.md'', js ''src/a.test.ts'', js ''package.json'', js ''src/a.ts'', js ''dist/a.js'']
   = [js ''README.md'', js ''src/a.test.ts'', js ''package.json'', js ''src/a.ts'']"
  by (simp add: ex_mixed_excluded src_a_not_excluded)

lemma ex_mixed_scope:
  "topLevelScope [js ''README.md'', js ''src/a.test.ts'', js ''package.json'', js ''src/a.ts'']
   = Some (js ''src'')"
  by code_simp

lemma ex_mixed_subject:
  "subject None ex_status_mixed
     [js ''README.md'', js ''src/a.test.ts'', js ''package.json'', js ''src/a.ts'']
   = js ''update src files''"
proof -
  have ne: "js ''README.md'' \<noteq> []" "js ''src/a.test.ts'' \<noteq> []" "js ''package.json'' \<noteq> []"
      "js ''src/a.ts'' \<noteq> []" "js ''dist/a.js'' \<noteq> []"
    by (simp_all add: js_def)
  have cf: "changedFiles ex_status_mixed
     = [js ''README.md'', js ''src/a.test.ts'', js ''package.json'', js ''src/a.ts'']"
    by (simp add: changedFiles_def ex_status_mixed_def ex_mixed_excluded src_a_not_excluded ne)
  show ?thesis
    by (simp add: subject_def cf ex_mixed_scope) (simp add: js_def)
qed

lemma ex_mixed_type:
  "inferredType asciiLowerCase None ex_status_mixed
     [js ''README.md'', js ''src/a.test.ts'', js ''package.json'', js ''src/a.ts''] = Refactor"
  by (simp add: inferredType_def ex_status_mixed_def ex_mixed_kinds src_a_kinds_ascii)

lemma ex_mixed_header:
  "generateCommitMessage asciiLowerCase ex_git_mixed (ex_request\<lparr>includeBody := Some False\<rparr>) =
     Inr (js ''refactor(src): update src files'')"
proof -
  have "int (length (js ''update src files'')) \<le> 72" by (simp add: js_def)
  then have tr: "truncate (js ''update src files'') 72 = js ''update src files''"
    by (rule truncate_short)
  have hd: "header Refactor (Some (js ''src'')) (js ''update src files'') 72
              = js ''refactor(src): update src files''"
    by (simp add: header_def tr) (simp add: js_def)
  have h: "checkIsRepo ex_git_mixed = Inr True" "status ex_git_mixed = Inr ex_status_mixed"
    "diffSummary ex_git_mixed =
       Inr [js ''README.md'', js ''src/a.test.ts'', js ''package.json'', js ''src/a.ts'',
            js ''dist/a.js'']"
    by (simp_all add: ex_git_mixed_def)
  show ?thesis
    using generateCommitMessage_success[OF h, of asciiLowerCase
            "ex_request\<lparr>includeBody := Some False\<rparr>"]
    unfolding nonExcludedSummaryFiles_def ex_mixed_nes
    by (simp add: ex_request_def ex_mixed_type derivedScope_def ex_mixed_scope
          ex_mixed_subject hd)
qed

lemma ex_many_nes: "filter (\<lambda>f. \<not> shouldExclude f) ex_many_files = ex_many_files"
  by code_simp

lemma ex_many_length: "length ex_many_files = 21"
  by code_simp

lemma showNat_1: "showNat 1 = js ''1''" "showNat (Suc 0) = js ''1''"
  by code_simp+

lemma ex_spaced_file:
  "\<not> shouldExclude (js ''abcd efghij.ts'')" "\<not> isDocFile asciiLowerCase (js ''abcd efghij.ts'')"
  "\<not> isTestFile asciiLowerCase (js ''abcd efghij.ts'')" "\<not> isConfigFile asciiLowerCase (js ''abcd efghij.ts'')"
  "basename (js ''abcd efghij.ts'') = js ''abcd efghij.ts''"
  "topLevelScope [js ''abcd efghij.ts''] = None"
  by code_simp+

lemma ex_spaced_subject:
  "subject None ex_status_spaced [js ''abcd efghij.ts''] = js ''add abcd efghij.ts''"
proof -
  have "js ''abcd efghij.ts'' \<noteq> []" by (simp add: js_def)
  then have cf: "changedFiles ex_status_spaced = [js ''abcd efghij.ts'']"
    by (simp add: changedFiles_def ex_status_spaced_def ex_spaced_file)
  have cr: "created ex_status_spaced = [js ''abcd efghij.ts'']"
    by (simp add: ex_status_spaced_def)
  show ?thesis
    by (simp add: subject_def cf cr ex_spaced_file) (simp add: js_def)
qed

lemma ex_spaced_truncate:
  "truncate (js ''add abcd efghij.ts'') 10 = js ''add abcd'' @ [ellipsis]"
  by code_simp

section \<open>Facts about paths\<close>

lemma js_split_append_sep: "js_split c (a @ c # b) = js_split c a @ js_split c b"
proof (induction a)
  case Nil
  show ?case by simp
next
  case (Cons x a)
  obtain p ps where "js_split c a = p # ps"
    using js_split_nonempty[of c a] by (cases "js_split c a") auto
  with Cons show ?case by simp
qed

lemma js_split_no_sep: "c \<notin> set s \<Longrightarrow> js_split c s = [s]"
  by (induction s) auto

lemma js_split_pieces: "s \<in> set (js_split c p) \<Longrightarrow> c \<notin> set s"
proof (induction p arbitrary: s)
  case Nil
  then show ?case by simp
next
  case (Cons x p)
  obtain q qs where q: "js_split c p = q # qs"
    using js_split_nonempty[of c p] by (cases "js_split c p") auto
  with Cons show ?case
    by (auto split: if_splits)
qed

lemma js_join_snoc:
  "js_join sep (xs @ [x]) = (if xs = [] then x else js_join sep xs @ sep @ x)"
  by (induction sep xs rule: js_join.induct) auto

lemma js_join_Cons:
  "js_join sep (x # xs) = (if xs = [] then x else x @ sep @ js_join sep xs)"
  by (cases xs) auto

lemma js_split_join:
  "R \<noteq> [] \<Longrightarrow> \<forall>s \<in> set R. c \<notin> set s \<Longrightarrow> js_split c (js_join [c] R) = R"
proof (induction R)
  case Nil
  then show ?case by simp
next
  case (Cons x R)
  show ?case
  proof (cases "R = []")
    case True
    with Cons.prems show ?thesis by (simp add: js_split_no_sep)
  next
    case False
    with Cons have "js_split c (js_join [c] R) = R" by simp
    with False Cons.prems show ?thesis
      by (simp add: js_join_Cons js_split_append_sep js_split_no_sep)
  qed
qed

lemma js_join_eq_Nil:
  "\<forall>s \<in> set R. s \<noteq> [] \<Longrightarrow> js_join sep R = [] \<longleftrightarrow> R = []"
  by (cases R) (auto simp: js_join_Cons)

lemma js_split_join_ok: "segs_ok R \<Longrightarrow> R \<noteq> [] \<Longrightarrow> js_split slash (js_join [slash] R) = R"
  by (rule js_split_join) (simp_all add: segs_ok_def)

lemma js_join_ok_eq_Nil: "segs_ok R \<Longrightarrow> js_join [slash] R = [] \<longleftrightarrow> R = []"
  by (rule js_join_eq_Nil) (simp add: segs_ok_def)

lemma js_join_inject:
  assumes "segs_ok R" and "segs_ok R'" and "js_join [slash] R = js_join [slash] R'"
  shows "R = R'"
proof (cases "R = []")
  case True
  then have "js_join [slash] R' = []" using assms(3) by simp
  then have "R' = []" using js_join_ok_eq_Nil[OF assms(2)] by blast
  with True show ?thesis by simp
next
  case False
  then have "js_join [slash] R \<noteq> []" using js_join_ok_eq_Nil[OF assms(1)] by blast
  then have "js_join [slash] R' \<noteq> []" using assms(3) by metis
  then have ne: "R' \<noteq> []" by auto
  have "js_split slash (js_join [slash] R) = R"
    using assms(1) False by (rule js_split_join_ok)
  moreover have "js_split slash (js_join [slash] R') = R'"
    using assms(2) ne by (rule js_split_join_ok)
  ultimately show ?thesis using assms(3) by metis
qed

lemma js_split_root_join:
  assumes "segs_ok R"
  shows "js_split slash (slash # js_join [slash] R) = [] # (if R = [] then [[]] else R)"
  using js_split_join_ok[OF assms] by simp

lemma parts_root_join:
  assumes "segs_ok R"
  shows "parts (slash # js_join [slash] R) = R"
proof (cases "R = []")
  case True
  then show ?thesis by (simp add: parts_def)
next
  case False
  have "filter (\<lambda>s. s \<noteq> []) R = R"
    using assms by (simp add: segs_ok_def filter_id_conv)
  with js_split_join_ok[OF assms False] show ?thesis
    by (simp add: parts_def)
qed

lemma prefix_root_join:
  assumes "segs_ok R" and "segs_ok R'"
    and "prefix (slash # js_join [slash] R @ [slash]) (slash # js_join [slash] R')"
  shows "R \<noteq> [] \<and> strict_prefix R R'"
proof -
  from assms(3) obtain t where t: "js_join [slash] R' = js_join [slash] R @ slash # t"
    by (auto simp: prefix_def)
  then have "js_join [slash] R' \<noteq> []" by simp
  then have ne': "R' \<noteq> []" by auto
  have "js_split slash (js_join [slash] R') = R'"
    using assms(2) ne' by (rule js_split_join_ok)
  then have sp: "R' = js_split slash (js_join [slash] R) @ js_split slash t"
    unfolding t by (simp add: js_split_append_sep)
  have ne: "R \<noteq> []"
  proof
    assume "R = []"
    with sp have "R' = [] # js_split slash t" by simp
    with assms(2) show False by (simp add: segs_ok_def)
  qed
  have "js_split slash (js_join [slash] R) = R"
    using assms(1) ne by (rule js_split_join_ok)
  with sp have "R' = R @ js_split slash t" by simp
  moreover have "js_split slash t \<noteq> []" by (rule js_split_nonempty)
  ultimately have "strict_prefix R R'"
    by (metis append.right_neutral prefixI same_append_eq strict_prefix_def)
  with ne show ?thesis by simp
qed

lemma normal_segs_ok: "normal R \<Longrightarrow> segs_ok R"
  by (simp add: normal_def segs_ok_def)

lemma normal_Nil: "normal []"
  by (simp add: normal_def)

lemma normal_butlast: "normal R \<Longrightarrow> normal (butlast R)"
  by (auto simp: normal_def dest: in_set_butlastD)

lemma normal_snoc: "normal (R @ [s]) \<longleftrightarrow> normal R \<and> s \<noteq> [] \<and> slash \<notin> set s \<and> s \<noteq> js ''.'' \<and> s \<noteq> js ''..''"
  by (auto simp: normal_def)

lemma normalizeSegs_append:
  "normalizeSegs a res (xs @ ys) = normalizeSegs a (normalizeSegs a res xs) ys"
  by (induction a res xs rule: normalizeSegs.induct) auto

lemma normalizeSegs_trailing_empty:
  "normalizeSegs a res (xs @ [[]]) = normalizeSegs a res xs"
  by (simp add: normalizeSegs_append)

lemma normalizeSegs_normal: "normal R \<Longrightarrow> normalizeSegs a res R = res @ R"
proof (induction R arbitrary: res)
  case Nil
  show ?case by simp
next
  case (Cons s R)
  from Cons.prems have s: "s \<noteq> []" "s \<noteq> js ''.''" "s \<noteq> js ''..''" and R: "normal R"
    by (simp_all add: normal_def)
  from Cons.IH[OF R] s show ?case by simp
qed

lemma normalizeSegs_keeps_normal:
  "normal res \<Longrightarrow> \<forall>s \<in> set xs. slash \<notin> set s \<Longrightarrow> normal (normalizeSegs False res xs)"
proof (induction xs arbitrary: res)
  case Nil
  then show ?case by simp
next
  case (Cons s xs)
  from Cons.prems(2) have xs: "\<forall>s \<in> set xs. slash \<notin> set s" and s: "slash \<notin> set s"
    by simp_all
  show ?case
  proof (cases "s = [] \<or> s = js ''.''")
    case True
    with Cons.IH[OF Cons.prems(1) xs] show ?thesis by auto
  next
    case skip: False
    show ?thesis
    proof (cases "s = js ''..''")
      case True
      have ne: "js ''..'' \<noteq> []" "js ''..'' \<noteq> js ''.''" by (simp_all add: js_def)
      show ?thesis
      proof (cases "res \<noteq> [] \<and> last res \<noteq> js ''..''")
        case True
        with \<open>s = js ''..''\<close> ne Cons.IH[OF normal_butlast[OF Cons.prems(1)] xs]
        show ?thesis by simp
      next
        case False
        with \<open>s = js ''..''\<close> ne Cons.IH[OF Cons.prems(1) xs]
        show ?thesis by auto
      qed
    next
      case False
      with skip s Cons.prems(1) have "normal (res @ [s])"
        by (simp add: normal_snoc)
      from Cons.IH[OF this xs] skip False show ?thesis by simp
    qed
  qed
qed

lemma pathKey_root_join:
  assumes "normal R"
  shows "pathKey (slash # js_join [slash] R) = R"
proof -
  have "js_split slash (slash # js_join [slash] R) = [] # (if R = [] then [[]] else R)"
    using normal_segs_ok[OF assms] by (rule js_split_root_join)
  then show ?thesis
    using normalizeSegs_normal[OF assms, of False "[]"] by (simp add: pathKey_def)
qed

lemma basename_root_join:
  assumes "segs_ok R"
  shows "basename (slash # js_join [slash] R) = (if R = [] then [] else last R)"
  by (simp add: basename_def parts_root_join[OF assms])

lemma startsWith_slash: "startsWith p (js ''/'') \<longleftrightarrow> p \<noteq> [] \<and> hd p = slash"
  by (cases p) (auto simp: startsWith_def js_def slash_def)

lemma resolve_loop_absolute:
  assumes "cwd \<noteq> []" and "hd cwd = slash"
  shows "\<exists>rp. resolve_loop (ps @ [cwd]) acc = (rp, True)"
  using assms by (induction ps arbitrary: acc) auto

lemma path_resolve_normal:
  assumes "startsWith cwd (js ''/'')"
  shows "\<exists>R. normal R \<and> path_resolve cwd args = slash # js_join [slash] R"
proof -
  from assms have c: "cwd \<noteq> []" "hd cwd = slash"
    by (simp_all add: startsWith_slash)
  obtain rp where rp: "resolve_loop (rev args @ [cwd]) [] = (rp, True)"
    using resolve_loop_absolute[OF c] by blast
  have "normal (normalizeSegs False [] (js_split slash rp))"
    by (rule normalizeSegs_keeps_normal[OF normal_Nil]) (simp add: js_split_pieces)
  moreover have "path_resolve cwd args
                   = slash # js_join [slash] (normalizeSegs False [] (js_split slash rp))"
    by (simp add: path_resolve_def rp normalizeString_def)
  ultimately show ?thesis by blast
qed

lemma path_resolve_under:
  assumes "normal R"
  shows "path_resolve cwd [slash # js_join [slash] R, t]
           = slash # js_join [slash]
               (normalizeSegs False (if t \<noteq> [] \<and> hd t = slash then [] else R)
                  (js_split slash t))"
proof -
  let ?root = "slash # js_join [slash] R"
  have key: "normalizeSegs False [] (js_split slash ?root) = R"
    using pathKey_root_join[OF assms] by (simp add: pathKey_def)
  show ?thesis
  proof (cases "t = []")
    case True
    have "js_split slash (?root @ [slash]) = js_split slash ?root @ [[]]"
      using js_split_append_sep[of slash ?root "[]"] by simp
    then have "normalizeSegs False [] (js_split slash (?root @ [slash])) = R"
      using key by (simp only: normalizeSegs_trailing_empty)
    with True show ?thesis
      by (simp add: path_resolve_def normalizeString_def)
  next
    case ne: False
    show ?thesis
    proof (cases "hd t = slash")
      case True
      have "js_split slash (t @ [slash]) = js_split slash t @ [[]]"
        using js_split_append_sep[of slash t "[]"] by simp
      then have "normalizeSegs False [] (js_split slash (t @ [slash]))
                   = normalizeSegs False [] (js_split slash t)"
        by (simp only: normalizeSegs_trailing_empty)
      with ne True show ?thesis
        by (simp add: path_resolve_def normalizeString_def)
    next
      case False
      have "js_split slash (?root @ slash # (t @ [slash]))
              = js_split slash ?root @ js_split slash t @ [[]]"
        using js_split_append_sep[of slash ?root "t @ [slash]"]
              js_split_append_sep[of slash t "[]"] by simp
      then have "normalizeSegs False [] (js_split slash (?root @ slash # (t @ [slash])))
                   = normalizeSegs False R (js_split slash t)"
        using key by (simp only: normalizeSegs_append normalizeSegs.simps) simp
      with ne False show ?thesis
        by (simp add: path_resolve_def normalizeString_def)
    qed
  qed
qed

lemma js_slash: "js ''/'' = [slash]"
  by (simp add: js_def slash_def)

lemma path_dirname_root_join:
  assumes "segs_ok R"
  shows "path_dirname (slash # js_join [slash] R) = slash # js_join [slash] (butlast R)"
proof (cases R rule: rev_cases)
  case Nil
  then show ?thesis by (simp add: path_dirname_def js_slash)
next
  case (snoc X r)
  with assms have r: "r \<noteq> []" "slash \<notin> set r" and X: "segs_ok X"
    by (simp_all add: segs_ok_def)
  from r have dw1: "dropWhile (\<lambda>c. c = slash) (rev r @ ys) = rev r @ ys" for ys
    by (cases r rule: rev_cases) auto
  have dw2: "dropWhile (\<lambda>c. c \<noteq> slash) (rev r @ ys) = dropWhile (\<lambda>c. c \<noteq> slash) ys" for ys
  proof (rule dropWhile_append2)
    fix x assume "x \<in> set (rev r)"
    with r(2) show "x \<noteq> slash" by auto
  qed
  show ?thesis
  proof (cases "X = []")
    case True
    with snoc show ?thesis
      using dw1[of "[]"] dw2[of "[]"] by (simp add: path_dirname_def js_slash)
  next
    case False
    then have jx: "js_join [slash] X \<noteq> []"
      using js_join_ok_eq_Nil[OF X] by blast
    have "rev (js_join [slash] (X @ [r])) = rev r @ slash # rev (js_join [slash] X)"
      using False by (simp add: js_join_snoc)
    with snoc jx show ?thesis
      using dw1[of "slash # rev (js_join [slash] X)"] dw2[of "slash # rev (js_join [slash] X)"]
      by (simp add: path_dirname_def Let_def)
  qed
qed

section \<open>Facts about the file system and the writer\<close>

lemma lookup_upd:
  "lookup (fs(K \<mapsto> v)) k = (if k = [] then Some Directory else if k = K then Some v else fs k)"
  by (simp add: lookup_def)

lemma walkDirs_None_mkdirp: "walkDirs fs pre ss = None \<Longrightarrow> mkdirp p fs pre ss = (None, fs)"
  by (induction ss arbitrary: pre) (auto split: option.splits node.splits)

lemma mkdirp_keeps_dirs:
  "mkdirp p fs pre ss = (r, fs') \<Longrightarrow> lookup fs k = Some Directory \<Longrightarrow> lookup fs' k = Some Directory"
proof (induction ss arbitrary: fs pre)
  case Nil
  then show ?case by simp
next
  case (Cons s ss)
  show ?case
  proof (cases "lookup fs (pre @ [s])")
    case None
    with Cons.prems(1) have m: "mkdirp p (fs(pre @ [s] \<mapsto> Directory)) (pre @ [s]) ss = (r, fs')"
      by simp
    have "lookup (fs(pre @ [s] \<mapsto> Directory)) k = Some Directory"
      using Cons.prems(2) by (auto simp: lookup_def split: if_splits)
    from Cons.IH[OF m this] show ?thesis .
  next
    case (Some n)
    show ?thesis
    proof (cases n)
      case (File t)
      with Some Cons.prems show ?thesis by simp
    next
      case Directory
      with Some Cons.prems(1) have "mkdirp p fs (pre @ [s]) ss = (r, fs')" by simp
      from Cons.IH[OF this Cons.prems(2)] show ?thesis .
    qed
  qed
qed

lemma mkdirp_walk: "mkdirp p fs pre ss = (None, fs') \<Longrightarrow> walkDirs fs' pre ss = None"
proof (induction ss arbitrary: fs pre)
  case Nil
  then show ?case by simp
next
  case (Cons s ss)
  show ?case
  proof (cases "lookup fs (pre @ [s])")
    case None
    with Cons.prems have m: "mkdirp p (fs(pre @ [s] \<mapsto> Directory)) (pre @ [s]) ss = (None, fs')"
      by simp
    have "lookup (fs(pre @ [s] \<mapsto> Directory)) (pre @ [s]) = Some Directory"
      by (simp add: lookup_def)
    from mkdirp_keeps_dirs[OF m this] Cons.IH[OF m] show ?thesis by simp
  next
    case (Some n)
    show ?thesis
    proof (cases n)
      case (File t)
      with Some Cons.prems show ?thesis by simp
    next
      case Directory
      with Some Cons.prems have m: "mkdirp p fs (pre @ [s]) ss = (None, fs')" by simp
      from Some Directory have "lookup fs (pre @ [s]) = Some Directory" by simp
      from mkdirp_keeps_dirs[OF m this] Cons.IH[OF m] show ?thesis by simp
    qed
  qed
qed

lemma walkDirs_update:
  "length pre + length ss < length K \<Longrightarrow> walkDirs (fs(K \<mapsto> v)) pre ss = walkDirs fs pre ss"
proof (induction ss arbitrary: pre)
  case Nil
  show ?case by simp
next
  case (Cons s ss)
  from Cons.prems have "pre @ [s] \<noteq> K" by auto
  then have l: "lookup (fs(K \<mapsto> v)) (pre @ [s]) = lookup fs (pre @ [s])"
    by (simp add: lookup_def)
  from Cons.prems have "length (pre @ [s]) + length ss < length K" by simp
  from Cons.IH[OF this] l show ?case by (simp only: walkDirs.simps)
qed

text \<open>The three file-system calls of the writer at a path in normal form.\<close>

lemma ensureDir_dirname:
  assumes "normal R"
  shows "ensureDir fs (path_dirname (slash # js_join [slash] R))
           = mkdirp (slash # js_join [slash] (butlast R)) fs [] (butlast R)"
  using pathKey_root_join[OF normal_butlast[OF assms]]
  by (simp add: ensureDir_def path_dirname_root_join[OF normal_segs_ok[OF assms]])

lemma stat_ok_normal:
  assumes "normal R"
  shows "stat_ok fs (slash # js_join [slash] R)
           \<longleftrightarrow> walkDirs fs [] (butlast R) = None \<and> lookup fs R \<noteq> None"
  by (simp add: stat_ok_def Let_def pathKey_root_join[OF assms])

lemma writeFile_normal:
  assumes "normal R" and "walkDirs fs [] (butlast R) = None"
  shows "writeFile fs (slash # js_join [slash] R) data
           = (if lookup fs R = Some Directory then (Some (FsError EISDIR (slash # js_join [slash] R)), fs)
              else (None, fs(R \<mapsto> File data)))"
  using assms(2)
  by (auto simp: writeFile_def Let_def pathKey_root_join[OF assms(1)] split: option.splits node.splits)

lemma resolveUnderRoot_normal:
  assumes "startsWith cwd (js ''/'')" and "resolveUnderRoot cwd root_dir target = Inr p"
  shows "\<exists>R. normal R \<and> p = slash # js_join [slash] R"
proof -
  from assms(2) have "p = path_resolve cwd [path_resolve cwd [root_dir], target]"
    by (auto simp: resolveUnderRoot_def Let_def split: if_splits)
  with path_resolve_normal[OF assms(1)] show ?thesis by blast
qed

lemma generateMarkdownFile_exists:
  assumes "startsWith cwd (js ''/'')" and "overwrite req \<noteq> Some True"
    and "resolveUnderRoot cwd (rootDir req) (relativePath req) = Inr fullPath"
    and "stat_ok fs fullPath"
  shows "generateMarkdownFile cwd req fs = (Inl (FileExistsError (relativePath req)), fs)"
proof -
  obtain R where R: "normal R" "fullPath = slash # js_join [slash] R"
    using resolveUnderRoot_normal[OF assms(1,3)] by blast
  from assms(4) have w: "walkDirs fs [] (butlast R) = None"
    by (simp add: R(2) stat_ok_normal[OF R(1)])
  have e: "ensureDir fs (path_dirname fullPath) = (None, fs)"
    unfolding R(2) ensureDir_dirname[OF R(1)] using w by (rule walkDirs_None_mkdirp)
  from assms(2) have ow: "(case overwrite req of None \<Rightarrow> False | Some b \<Rightarrow> b) = False"
    by (cases "overwrite req") auto
  show ?thesis
    using assms(4) by (simp add: generateMarkdownFile_def assms(3) e ow)
qed

lemma generateMarkdownFile_written:
  assumes "startsWith cwd (js ''/'')" and "overwrite req \<noteq> Some True"
    and "generateMarkdownFile cwd req fs = (Inr res, fs')"
  shows "stat_ok fs' (path res)
         \<and> lookup fs' (pathKey (path res)) = Some (File (finalContent req))
         \<and> resolveUnderRoot cwd (rootDir req) (relativePath req) = Inr (path res)"
proof -
  from assms(2) have ow: "(case overwrite req of None \<Rightarrow> False | Some b \<Rightarrow> b) = False"
    by (cases "overwrite req") auto
  from assms(3) obtain fullPath where
    fp: "resolveUnderRoot cwd (rootDir req) (relativePath req) = Inr fullPath"
    by (cases "resolveUnderRoot cwd (rootDir req) (relativePath req)")
       (auto simp: generateMarkdownFile_def)
  obtain R where R: "normal R" "fullPath = slash # js_join [slash] R"
    using resolveUnderRoot_normal[OF assms(1) fp] by blast
  obtain r fs1 where e: "ensureDir fs (path_dirname fullPath) = (r, fs1)"
    by (cases "ensureDir fs (path_dirname fullPath)") auto
  with assms(3) fp have r: "r = None"
    by (cases r) (auto simp: generateMarkdownFile_def)
  from e r have "mkdirp (slash # js_join [slash] (butlast R)) fs [] (butlast R) = (None, fs1)"
    by (simp add: R(2) ensureDir_dirname[OF R(1)])
  then have w1: "walkDirs fs1 [] (butlast R) = None"
    by (rule mkdirp_walk)
  from assms(3) fp e r ow have ne: "\<not> stat_ok fs1 fullPath"
    by (auto simp: generateMarkdownFile_def split: if_splits)
  with assms(3) fp e r ow
  have wf: "writeFile fs1 fullPath (finalContent req) = (None, fs')" and p: "path res = fullPath"
    by (auto simp: generateMarkdownFile_def split: prod.splits option.splits)
  from wf have nd: "lookup fs1 R \<noteq> Some Directory" and fs': "fs' = fs1(R \<mapsto> File (finalContent req))"
    by (auto simp: R(2) writeFile_normal[OF R(1) w1] split: if_splits)
  from nd have Rne: "R \<noteq> []" by (auto simp: lookup_def)
  then have "length [] + length (butlast R) < length R" by simp
  then have "walkDirs (fs1(R \<mapsto> File (finalContent req))) [] (butlast R)
               = walkDirs fs1 [] (butlast R)"
    by (rule walkDirs_update)
  with w1 have w2: "walkDirs fs' [] (butlast R) = None"
    by (simp only: fs')
  have l: "lookup fs' R = Some (File (finalContent req))"
    using Rne by (simp add: fs' lookup_def)
  from w2 l have "stat_ok fs' fullPath"
    by (simp add: R(2) stat_ok_normal[OF R(1)])
  moreover have "lookup fs' (pathKey fullPath) = Some (File (finalContent req))"
    using l by (simp add: R(2) pathKey_root_join[OF R(1)])
  ultimately show ?thesis
    using fp p by simp
qed

lemma ex_resolve_notes:
  "resolveUnderRoot (js ''/'') (js ''/srv'') (js ''notes.md'') = Inr (js ''/srv/notes.md'')"
  by code_simp

lemma ex_resolve_docs:
  "resolveUnderRoot (js ''/w'') (js ''r'') (js ''docs/notes.md'') = Inr (js ''/w/r/docs/notes.md'')"
  by code_simp

lemma ex_keys:
  "pathKey (js ''/w/r/docs/notes.md'') = [js ''w'', js ''r'', js ''docs'', js ''notes.md'']"
  "path_resolve (js ''/w'') [js ''r''] = js ''/w/r''"
  "pathKey (js ''/w/r'') = [js ''w'', js ''r'']"
  "pathKey (js ''/srv/notes.md'') = [js ''srv'', js ''notes.md'']"
  by code_simp+

lemma ex_stat: "stat_ok ex_fs (js ''/srv/notes.md'')"
  by (simp add: stat_ok_def ex_keys ex_fs_def lookup_def)

lemma ex_final: "finalContent ex_md_request = js ''# T'' @ [newline]"
  "finalContent ex_md_outside = js ''# T'' @ [newline]"
  by code_simp+

lemma ex_outside_run:
  "fst (generateMarkdownFile (js ''/'') ex_md_outside ex_fs_empty)
     = Inr \<lparr>path = js ''/srv/outside.md'', bytesWritten = 4, created_new = True,
            overwritten = False\<rparr>"
  "snd (generateMarkdownFile (js ''/'') ex_md_outside ex_fs_empty) [js ''srv'', js ''outside.md'']
     = Some (File (js ''# T'' @ [newline]))"
  by code_simp+

lemma ex_notes_run:
  "fst (generateMarkdownFile (js ''/'') ex_md_request ex_fs_empty)
     = Inr \<lparr>path = js ''/srv/notes.md'', bytesWritten = 4, created_new = True,
            overwritten = False\<rparr>"
  by code_simp

lemma ex_parent:
  "basename (path_resolve (js ''/'') [js ''/srv'']) \<noteq> js ''outside.md''"
  "path_resolve (js ''/'') [path_resolve (js ''/'') [js ''/srv''], js ''../outside.md'']
     = js ''/outside.md''"
  by code_simp+

section \<open>Claims about the scope deriver and the truncation\<close>

text \<open>
  C4. For every list of paths, \<open>topLevelScope\<close> returns the first segment of the first
  path, in the given order, that has more than one segment; when the list is empty or no
  path has more than one segment, the result is absent.
\<close>

theorem topLevelScope_first_multi_segment:
  "topLevelScope files =
     map_option (\<lambda>f. hd (parts f)) (find (\<lambda>f. length (parts f) > 1) files)
   \<and> (topLevelScope files = None \<longleftrightarrow> (\<forall>f \<in> set files. length (parts f) \<le> 1))
   \<and> topLevelScope [] = None"
proof -
  have a: "topLevelScope files =
     map_option (\<lambda>f. hd (parts f)) (find (\<lambda>f. length (parts f) > 1) files)"
    by (simp add: topLevelScope_eq_scan topLevelScope_scan_find)
  have b: "topLevelScope files = None \<longleftrightarrow> (\<forall>f \<in> set files. length (parts f) \<le> 1)"
    unfolding a by (auto simp: find_None_iff not_less)
  have c: "topLevelScope [] = None"
    by (simp add: topLevelScope_def)
  from a b c show ?thesis by blast
qed

theorem topLevelScope_first_multi_segment_witness:
  "topLevelScope [js ''README.md'', js ''src/lib/path.ts'', js ''docs/a.md''] = Some (js ''src'')
   \<and> topLevelScope [js ''README.md'', js ''/package.json''] = None"
proof -
  have p1: "parts (js ''README.md'') = [js ''README.md'']"
    by (simp add: parts_def js_def slash_def)
  have p2: "parts (js ''src/lib/path.ts'') = [js ''src'', js ''lib'', js ''path.ts'']"
    by (simp add: parts_def js_def slash_def)
  have p3: "parts (js ''/package.json'') = [js ''package.json'']"
    by (simp add: parts_def js_def slash_def)
  show ?thesis
    using topLevelScope_first_multi_segment
            [of "[js ''README.md'', js ''src/lib/path.ts'', js ''docs/a.md'']"]
          topLevelScope_first_multi_segment [of "[js ''README.md'', js ''/package.json'']"]
    by (simp add: p1 p2 p3)
qed

text \<open>
  C5. The branch of \<open>topLevelScope\<close> for a list of exactly one file never changes the
  result: on every list the function returns what the scan loop alone returns.
\<close>

theorem topLevelScope_fallback_redundant:
  "topLevelScope files = topLevelScope_simplified files"
  by (simp add: topLevelScope_eq_scan topLevelScope_scan_simplified)

text \<open>
  C10. For a positive maximum, \<open>truncate\<close> returns a string of at most that many code
  units, and a string that is not longer than the maximum is returned as it is.
\<close>

theorem truncate_length_le:
  assumes "0 < mx"
  shows "length (truncate str mx) \<le> nat mx
         \<and> (int (length str) \<le> mx \<longrightarrow> truncate str mx = str)"
proof (cases "int (length str) > mx")
  case True
  with assms have "slice0 str (mx - 1) = take (nat (mx - 1)) str"
    by (simp add: slice0_def Let_def min_def)
  then have "length (trimEnd (slice0 str (mx - 1))) \<le> nat (mx - 1)"
    using length_trimEnd_le[of "take (nat (mx - 1)) str"] by simp
  with assms True show ?thesis
    by (simp add: truncate_def)
next
  case False
  then show ?thesis
    by (simp add: truncate_def)
qed

theorem truncate_length_le_witness:
  "(0::int) < 5
   \<and> length (truncate (js ''update project files'') 5) \<le> nat 5
   \<and> truncate (js ''fix'') 5 = js ''fix''"
  using truncate_length_le [of 5 "js ''update project files''"]
        truncate_length_le [of 5 "js ''fix''"]
  by (simp add: js_def)

section \<open>Claims about the commit message synthesizer\<close>

text \<open>
  C2. When the collaborator answers, an explicit type on the request is the type of the
  message, whatever the files are. With no explicit type and a non-empty list of
  non-excluded changed files, the type is \<open>docs\<close> if every file is a documentation
  file, else \<open>test\<close> if every file is a test file, else \<open>chore\<close> if every file is
  a configuration file, else \<open>feat\<close> if some created file is not excluded, else
  \<open>chore\<close> if some deleted file is not excluded, else \<open>refactor\<close>. The type is read
  off the message: its name opens the header and is followed by the scope in parentheses
  or by the colon. The statement holds whatever the lower-casing of the runtime does,
  the predicates being those of the code with that lower-casing.
\<close>

theorem inferred_type_priority:
  assumes "checkIsRepo g = Inr True" and "status g = Inr st" and "diffSummary g = Inr files"
  shows "(\<forall>t. ctype req = Some t \<longrightarrow>
            (\<exists>rest. generateCommitMessage lc g req = Inr (typeName t @ rest)
                   \<and> (prefix (js ''('') rest \<or> prefix (js '': '') rest)))
       \<and> (ctype req = None \<and> filter (\<lambda>f. \<not> shouldExclude f) files \<noteq> [] \<longrightarrow>
            (\<exists>rest. generateCommitMessage lc g req =
               Inr (typeName
                     (if list_all (isDocFile lc) (filter (\<lambda>f. \<not> shouldExclude f) files) then Docs
                      else if list_all (isTestFile lc) (filter (\<lambda>f. \<not> shouldExclude f) files) then Test
                      else if list_all (isConfigFile lc) (filter (\<lambda>f. \<not> shouldExclude f) files)
                        then Chore
                      else if (\<exists>f \<in> set (created st). \<not> shouldExclude f) then Feat
                      else if (\<exists>f \<in> set (deleted st). \<not> shouldExclude f) then Chore
                      else Refactor) @ rest)
                   \<and> (prefix (js ''('') rest \<or> prefix (js '': '') rest)))"
proof (intro conjI allI impI)
  fix t assume "ctype req = Some t"
  then show "\<exists>rest. generateCommitMessage lc g req = Inr (typeName t @ rest)
                   \<and> (prefix (js ''('') rest \<or> prefix (js '': '') rest)"
    using message_starts[OF assms, of lc req] by (simp add: inferredType_override)
next
  let ?nes = "filter (\<lambda>f. \<not> shouldExclude f) files"
  let ?T = "if list_all (isDocFile lc) ?nes then Docs
            else if list_all (isTestFile lc) ?nes then Test
            else if list_all (isConfigFile lc) ?nes then Chore
            else if (\<exists>f \<in> set (created st). \<not> shouldExclude f) then Feat
            else if (\<exists>f \<in> set (deleted st). \<not> shouldExclude f) then Chore
            else Refactor"
  assume h: "ctype req = None \<and> ?nes \<noteq> []"
  then have "nonExcludedSummaryFiles files \<noteq> []"
    by (simp add: nonExcludedSummaryFiles_def)
  from inferredType_chain[OF this, of lc st] h
  have eq: "inferredType lc (ctype req) st (nonExcludedSummaryFiles files) = ?T"
    by (simp only: nonExcludedSummaryFiles_def)
  show "\<exists>rest. generateCommitMessage lc g req = Inr (typeName ?T @ rest)
                   \<and> (prefix (js ''('') rest \<or> prefix (js '': '') rest)"
    using message_starts[OF assms, of lc req] by (simp only: eq)
qed

theorem inferred_type_priority_witness:
  "checkIsRepo ex_git = Inr True \<and> status ex_git = Inr ex_status
   \<and> diffSummary ex_git = Inr [js ''src/a.ts'']
   \<and> ctype ex_request = None \<and> filter (\<lambda>f. \<not> shouldExclude f) [js ''src/a.ts''] \<noteq> []
   \<and> (\<exists>rest. generateCommitMessage asciiLowerCase ex_git ex_request = Inr (typeName Feat @ rest)
           \<and> (prefix (js ''('') rest \<or> prefix (js '': '') rest))
   \<and> ctype (ex_request\<lparr>ctype := Some Fix\<rparr>) = Some Fix
   \<and> (\<exists>rest. generateCommitMessage asciiLowerCase ex_git (ex_request\<lparr>ctype := Some Fix\<rparr>) = Inr (typeName Fix @ rest)
           \<and> (prefix (js ''('') rest \<or> prefix (js '': '') rest))"
proof -
  have h: "checkIsRepo ex_git = Inr True" "status ex_git = Inr ex_status"
      "diffSummary ex_git = Inr [js ''src/a.ts'']"
    by (simp_all add: ex_git_def)
  have c: "created ex_status = [js ''src/a.ts'']" by (simp add: ex_status_def)
  have n: "ctype ex_request = None" by (simp add: ex_request_def)
  have f: "filter (\<lambda>f. \<not> shouldExclude f) [js ''src/a.ts''] = [js ''src/a.ts'']"
    by (simp add: src_a_not_excluded)
  from inferred_type_priority[OF h, where req = ex_request and lc = asciiLowerCase] n
  have a: "\<exists>rest. generateCommitMessage asciiLowerCase ex_git ex_request = Inr (typeName Feat @ rest)
           \<and> (prefix (js ''('') rest \<or> prefix (js '': '') rest)"
    by (simp add: f c src_a_kinds_ascii src_a_not_excluded)
  from inferred_type_priority[OF h, where req = "ex_request\<lparr>ctype := Some Fix\<rparr>"
      and lc = asciiLowerCase]
  have b: "\<exists>rest. generateCommitMessage asciiLowerCase ex_git (ex_request\<lparr>ctype := Some Fix\<rparr>) = Inr (typeName Fix @ rest)
           \<and> (prefix (js ''('') rest \<or> prefix (js '': '') rest)"
    by simp
  from h n f a b show ?thesis by simp
qed

text \<open>
  C9, as amended. When the status reports the one created file \<open>src/a.ts\<close> and
  nothing else, the diff summary lists that file and no other, and the request carries
  no overrides, the header is \<open>feat(src): add a.ts\<close>; with the body (the default) the
  bullet \<open>- code: src/a.ts\<close> follows after a blank line. This holds with every
  lower-casing that acts on ASCII strings as the runtime's does.
\<close>

theorem single_created_file_header:
  assumes "lowersAscii lc"
    and "checkIsRepo g = Inr True" and "status g = Inr st"
    and "diffSummary g = Inr [js ''src/a.ts'']"
    and "created st = [js ''src/a.ts'']" and "modified st = []" and "deleted st = []"
    and "renamed st = []"
    and "ctype req = None" and "scope req = None" and "summary req = None"
    and "maxSubjectLength req = None"
  shows "generateCommitMessage lc g req =
           Inr (if includeBody req = Some False then js ''feat(src): add a.ts''
                else js ''feat(src): add a.ts'' @ [newline, newline] @ js ''- code: src/a.ts'')"
proof -
  note kinds = src_a_not_doc[OF assms(1)] src_a_not_test[OF assms(1)]
    src_a_not_config[OF assms(1)]
  have nes: "nonExcludedSummaryFiles [js ''src/a.ts''] = [js ''src/a.ts'']"
    by (simp add: nonExcludedSummaryFiles_def src_a_not_excluded)
  have ty: "inferredType lc None st [js ''src/a.ts''] = Feat"
    using assms(5) by (simp add: inferredType_def kinds src_a_not_excluded)
  have sc: "derivedScope None [js ''src/a.ts''] = Some (js ''src'')"
    by (simp add: derivedScope_def src_a_scope)
  have "js ''src/a.ts'' \<noteq> []" by (simp add: js_def)
  then have cf: "changedFiles st = [js ''src/a.ts'']"
    using assms(5-8) by (simp add: changedFiles_def src_a_not_excluded)
  have su: "subject None st [js ''src/a.ts''] = js ''add a.ts''"
    using assms(5) by (simp add: subject_def cf src_a_basename) (simp add: js_def)
  have "int (length (js ''add a.ts'')) \<le> 72" by (simp add: js_def)
  then have tr: "truncate (js ''add a.ts'') 72 = js ''add a.ts''" by (rule truncate_short)
  have hd: "header Feat (Some (js ''src'')) (js ''add a.ts'') 72 = js ''feat(src): add a.ts''"
    by (simp add: header_def tr) (simp add: js_def)
  have bl: "bodyLines lc [js ''src/a.ts''] = [js ''- code: src/a.ts'']"
    by (simp add: bodyLines_def kindPrefix_def kinds) (simp add: js_def)
  show ?thesis
    using generateCommitMessage_success[OF assms(2-4), of lc req] assms(9-12)
    by (simp add: nes ty sc su hd bl)
qed

theorem single_created_file_header_witness:
  "lowersAscii asciiLowerCase
   \<and> checkIsRepo ex_git = Inr True \<and> status ex_git = Inr ex_status
   \<and> diffSummary ex_git = Inr [js ''src/a.ts'']
   \<and> created ex_status = [js ''src/a.ts''] \<and> modified ex_status = [] \<and> deleted ex_status = []
   \<and> renamed ex_status = []
   \<and> ctype ex_request = None \<and> scope ex_request = None \<and> summary ex_request = None
   \<and> maxSubjectLength ex_request = None
   \<and> generateCommitMessage asciiLowerCase ex_git ex_request =
        Inr (js ''feat(src): add a.ts'' @ [newline, newline] @ js ''- code: src/a.ts'')
   \<and> generateCommitMessage asciiLowerCase ex_git (ex_request\<lparr>includeBody := Some False\<rparr>) =
        Inr (js ''feat(src): add a.ts'')"
  using single_created_file_header
          [OF lowersAscii_asciiLowerCase, of ex_git ex_status ex_request]
        single_created_file_header
          [OF lowersAscii_asciiLowerCase, of ex_git ex_status
             "ex_request\<lparr>includeBody := Some False\<rparr>"]
        lowersAscii_asciiLowerCase
  by (simp add: ex_git_def ex_status_def ex_request_def)

text \<open>
  C9, as stated, fails: the status reports the one created file \<open>src/a.ts\<close> and
  nothing else, the request carries no overrides, and the diff summary is empty, as it
  is for a new file that is staged. The scope is taken from the diff summary, so there
  is none, and the header is \<open>feat: add a.ts\<close>.
\<close>

theorem single_created_file_header_counterexample:
  "checkIsRepo ex_git_staged = Inr True \<and> status ex_git_staged = Inr ex_status
   \<and> created ex_status = [js ''src/a.ts''] \<and> modified ex_status = [] \<and> deleted ex_status = []
   \<and> renamed ex_status = []
   \<and> ctype ex_request = None \<and> scope ex_request = None \<and> summary ex_request = None
   \<and> includeBody ex_request = None \<and> maxSubjectLength ex_request = None
   \<and> generateCommitMessage asciiLowerCase ex_git_staged ex_request =
        Inr (js ''feat: add a.ts'' @ [newline])
   \<and> generateCommitMessage asciiLowerCase ex_git_staged
        (ex_request\<lparr>includeBody := Some False\<rparr>) = Inr (js ''feat: add a.ts'')"
proof -
  have h: "checkIsRepo ex_git_staged = Inr True" "status ex_git_staged = Inr ex_status"
    "diffSummary ex_git_staged = Inr []"
    by (simp_all add: ex_git_staged_def)
  have st: "created ex_status = [js ''src/a.ts'']" "modified ex_status = []"
    "deleted ex_status = []" "renamed ex_status = []"
    by (simp_all add: ex_status_def)
  have rq: "ctype ex_request = None" "scope ex_request = None" "summary ex_request = None"
    "includeBody ex_request = None" "maxSubjectLength ex_request = None"
    by (simp_all add: ex_request_def)
  have ty: "inferredType asciiLowerCase None ex_status [] = Feat"
    by (simp add: inferredType_def st src_a_not_excluded)
  have sc: "derivedScope None [] = None"
    by (simp add: derivedScope_def topLevelScope_def)
  have "js ''src/a.ts'' \<noteq> []" by (simp add: js_def)
  then have cf: "changedFiles ex_status = [js ''src/a.ts'']"
    by (simp add: changedFiles_def st src_a_not_excluded)
  have su: "subject None ex_status [] = js ''add a.ts''"
    by (simp add: subject_def cf st src_a_basename) (simp add: js_def)
  have "int (length (js ''add a.ts'')) \<le> 72" by (simp add: js_def)
  then have tr: "truncate (js ''add a.ts'') 72 = js ''add a.ts''" by (rule truncate_short)
  have hd: "header Feat None (js ''add a.ts'') 72 = js ''feat: add a.ts''"
    by (simp add: header_def tr) (simp add: js_def)
  have bl: "bodyLines asciiLowerCase [] = []"
    by (simp add: bodyLines_def)
  have a: "generateCommitMessage asciiLowerCase ex_git_staged ex_request =
        Inr (js ''feat: add a.ts'' @ [newline])"
    using generateCommitMessage_success[OF h, of asciiLowerCase ex_request]
    by (simp add: nonExcludedSummaryFiles_def rq ty sc su hd bl)
  have b: "generateCommitMessage asciiLowerCase ex_git_staged
        (ex_request\<lparr>includeBody := Some False\<rparr>) = Inr (js ''feat: add a.ts'')"
    using generateCommitMessage_success[OF h, of asciiLowerCase
            "ex_request\<lparr>includeBody := Some False\<rparr>"]
    by (simp add: nonExcludedSummaryFiles_def rq ty sc su hd)
  from h(1,2) st rq a b show ?thesis by simp
qed

text \<open>
  C8. With the body disabled only the header is returned. With the body enabled (the
  default) the message is that header, a blank line, and one bullet \<open>- kind: path\<close>
  for each of the first 20 non-excluded files of the diff summary, in their order, the
  kind being \<open>docs\<close>, else \<open>test\<close>, else \<open>config\<close>, else \<open>code\<close> by the first
  predicate that holds; when there are more than 20 such files, a last bullet tells how
  many are left. The statement holds whatever the lower-casing of the runtime does.
\<close>

theorem body_bullets:
  assumes "checkIsRepo g = Inr True" and "status g = Inr st" and "diffSummary g = Inr files"
  shows "\<exists>hdr. generateCommitMessage lc g (req\<lparr>includeBody := Some False\<rparr>) = Inr hdr
     \<and> (\<forall>b. b \<noteq> Some False \<longrightarrow>
          generateCommitMessage lc g (req\<lparr>includeBody := b\<rparr>) =
            Inr (js_join [newline]
                  ([hdr, []]
                   @ map (\<lambda>f. js ''- ''
                              @ (if isDocFile lc f then js ''docs''
                                 else if isTestFile lc f then js ''test''
                                 else if isConfigFile lc f then js ''config''
                                 else js ''code'')
                              @ js '': '' @ f)
                       (take 20 (filter (\<lambda>f. \<not> shouldExclude f) files))
                   @ (if length (filter (\<lambda>f. \<not> shouldExclude f) files) > 20
                      then [js ''- '' @ [ellipsis] @ js ''and ''
                              @ showNat (length (filter (\<lambda>f. \<not> shouldExclude f) files) - 20)
                              @ js '' more file(s)'']
                      else []))))"
proof -
  let ?nes = "nonExcludedSummaryFiles files"
  let ?hdr = "header (inferredType lc (ctype req) st ?nes) (derivedScope (scope req) ?nes)
                (subject (summary req) st ?nes)
                (case maxSubjectLength req of None \<Rightarrow> 72 | Some m \<Rightarrow> m)"
  have a: "generateCommitMessage lc g (req\<lparr>includeBody := Some False\<rparr>) = Inr ?hdr"
    using generateCommitMessage_success[OF assms, of lc "req\<lparr>includeBody := Some False\<rparr>"]
    by (simp add: Let_def)
  have b: "generateCommitMessage lc g (req\<lparr>includeBody := b\<rparr>) =
             Inr (js_join [newline] ([?hdr, []] @ bodyLines lc ?nes))" if "b \<noteq> Some False" for b
    using generateCommitMessage_success[OF assms, of lc "req\<lparr>includeBody := b\<rparr>"] that
    by (simp add: Let_def)
  have k: "kindPrefix lc = (\<lambda>f. if isDocFile lc f then js ''docs''
                                 else if isTestFile lc f then js ''test''
                                 else if isConfigFile lc f then js ''config''
                                 else js ''code'')"
    by (rule ext) (simp add: kindPrefix_def)
  show ?thesis
    using a b unfolding bodyLines_eq k nonExcludedSummaryFiles_def by blast
qed

theorem body_bullets_witness:
  "(checkIsRepo ex_git_mixed = Inr True \<and> status ex_git_mixed = Inr ex_status_mixed
   \<and> diffSummary ex_git_mixed =
       Inr [js ''README.md'', js ''src/a.test.ts'', js ''package.json'', js ''src/a.ts'',
            js ''dist/a.js'']
   \<and> generateCommitMessage asciiLowerCase ex_git_mixed (ex_request\<lparr>includeBody := Some False\<rparr>) =
       Inr (js ''refactor(src): update src files'')
   \<and> None \<noteq> Some False
   \<and> generateCommitMessage asciiLowerCase ex_git_mixed (ex_request\<lparr>includeBody := None\<rparr>) =
       Inr (js ''refactor(src): update src files'' @ [newline, newline]
            @ js ''- docs: README.md'' @ [newline]
            @ js ''- test: src/a.test.ts'' @ [newline]
            @ js ''- config: package.json'' @ [newline]
            @ js ''- code: src/a.ts''))
   \<and> (\<exists>hdr. generateCommitMessage asciiLowerCase ex_git_many (ex_request\<lparr>includeBody := Some False\<rparr>)
            = Inr hdr
        \<and> generateCommitMessage asciiLowerCase ex_git_many (ex_request\<lparr>includeBody := None\<rparr>)
            = Inr (js_join [newline]
                    ([hdr, []]
                     @ map (\<lambda>f. js ''- ''
                              @ (if isDocFile asciiLowerCase f then js ''docs''
                                 else if isTestFile asciiLowerCase f then js ''test''
                                 else if isConfigFile asciiLowerCase f then js ''config''
                                 else js ''code'')
                              @ js '': '' @ f)
                         (take 20 ex_many_files)
                     @ [js ''- '' @ [ellipsis] @ js ''and 1 more file(s)''])))"
proof -
  have mixed: "checkIsRepo ex_git_mixed = Inr True \<and> status ex_git_mixed = Inr ex_status_mixed
     \<and> diffSummary ex_git_mixed =
         Inr [js ''README.md'', js ''src/a.test.ts'', js ''package.json'', js ''src/a.ts'',
              js ''dist/a.js'']
     \<and> generateCommitMessage asciiLowerCase ex_git_mixed (ex_request\<lparr>includeBody := Some False\<rparr>) =
         Inr (js ''refactor(src): update src files'')
     \<and> None \<noteq> Some False
     \<and> generateCommitMessage asciiLowerCase ex_git_mixed (ex_request\<lparr>includeBody := None\<rparr>) =
         Inr (js ''refactor(src): update src files'' @ [newline, newline]
              @ js ''- docs: README.md'' @ [newline]
              @ js ''- test: src/a.test.ts'' @ [newline]
              @ js ''- config: package.json'' @ [newline]
              @ js ''- code: src/a.ts'')"
  proof -
    have h: "checkIsRepo ex_git_mixed = Inr True" "status ex_git_mixed = Inr ex_status_mixed"
      "diffSummary ex_git_mixed =
         Inr [js ''README.md'', js ''src/a.test.ts'', js ''package.json'', js ''src/a.ts'',
              js ''dist/a.js'']"
      by (simp_all add: ex_git_mixed_def)
    from body_bullets[OF h, where req = ex_request and lc = asciiLowerCase] obtain hdr where
      1: "generateCommitMessage asciiLowerCase ex_git_mixed (ex_request\<lparr>includeBody := Some False\<rparr>) = Inr hdr"
      and 2: "generateCommitMessage asciiLowerCase ex_git_mixed (ex_request\<lparr>includeBody := None\<rparr>) =
              Inr (js_join [newline]
                    ([hdr, []]
                     @ map (\<lambda>f. js ''- ''
                                @ (if isDocFile asciiLowerCase f then js ''docs''
                                   else if isTestFile asciiLowerCase f then js ''test''
                                   else if isConfigFile asciiLowerCase f then js ''config''
                                   else js ''code'')
                                @ js '': '' @ f)
                         (take 20 (filter (\<lambda>f. \<not> shouldExclude f)
                            [js ''README.md'', js ''src/a.test.ts'', js ''package.json'',
                             js ''src/a.ts'', js ''dist/a.js'']))
                     @ (if length (filter (\<lambda>f. \<not> shouldExclude f)
                            [js ''README.md'', js ''src/a.test.ts'', js ''package.json'',
                             js ''src/a.ts'', js ''dist/a.js'']) > 20
                        then [js ''- '' @ [ellipsis] @ js ''and ''
                                @ showNat (length (filter (\<lambda>f. \<not> shouldExclude f)
                                    [js ''README.md'', js ''src/a.test.ts'', js ''package.json'',
                                     js ''src/a.ts'', js ''dist/a.js'']) - 20)
                                @ js '' more file(s)'']
                        else [])))"
      by blast
    from 1 have e: "hdr = js ''refactor(src): update src files''"
      by (simp add: ex_mixed_header)
    from 2 have "generateCommitMessage asciiLowerCase ex_git_mixed (ex_request\<lparr>includeBody := None\<rparr>) =
         Inr (js ''refactor(src): update src files'' @ [newline, newline]
              @ js ''- docs: README.md'' @ [newline]
              @ js ''- test: src/a.test.ts'' @ [newline]
              @ js ''- config: package.json'' @ [newline]
              @ js ''- code: src/a.ts'')"
      unfolding e ex_mixed_nes
      by (simp add: ex_mixed_kinds src_a_kinds_ascii) (simp add: js_def)
    with h show ?thesis by (simp add: ex_mixed_header)
  qed
  have many: "\<exists>hdr. generateCommitMessage asciiLowerCase ex_git_many (ex_request\<lparr>includeBody := Some False\<rparr>)
              = Inr hdr
          \<and> generateCommitMessage asciiLowerCase ex_git_many (ex_request\<lparr>includeBody := None\<rparr>)
              = Inr (js_join [newline]
                      ([hdr, []]
                       @ map (\<lambda>f. js ''- ''
                                @ (if isDocFile asciiLowerCase f then js ''docs''
                                   else if isTestFile asciiLowerCase f then js ''test''
                                   else if isConfigFile asciiLowerCase f then js ''config''
                                   else js ''code'')
                                @ js '': '' @ f)
                           (take 20 ex_many_files)
                       @ [js ''- '' @ [ellipsis] @ js ''and 1 more file(s)'']))"
  proof -
    have h: "checkIsRepo ex_git_many = Inr True"
      "status ex_git_many = Inr \<lparr>created = [], modified = ex_many_files, deleted = [], renamed = []\<rparr>"
      "diffSummary ex_git_many = Inr ex_many_files"
      by (simp_all add: ex_git_many_def)
    have m: "js ''- '' @ [ellipsis] @ js ''and '' @ showNat (21 - 20) @ js '' more file(s)''
               = js ''- '' @ [ellipsis] @ js ''and 1 more file(s)''"
      by (simp add: showNat_1) (simp add: js_def)
    note t = body_bullets[OF h, where req = ex_request and lc = asciiLowerCase,
        unfolded ex_many_nes ex_many_length]
    then obtain hdr where
      1: "generateCommitMessage asciiLowerCase ex_git_many (ex_request\<lparr>includeBody := Some False\<rparr>)
              = Inr hdr"
      and 2: "\<forall>b. b \<noteq> Some False \<longrightarrow>
            generateCommitMessage asciiLowerCase ex_git_many (ex_request\<lparr>includeBody := b\<rparr>) =
              Inr (js_join [newline]
                    ([hdr, []]
                     @ map (\<lambda>f. js ''- ''
                                @ (if isDocFile asciiLowerCase f then js ''docs''
                                   else if isTestFile asciiLowerCase f then js ''test''
                                   else if isConfigFile asciiLowerCase f then js ''config''
                                   else js ''code'')
                                @ js '': '' @ f)
                         (take 20 ex_many_files)
                     @ (if 20 < (21::nat)
                        then [js ''- '' @ [ellipsis] @ js ''and ''
                                @ showNat (21 - 20) @ js '' more file(s)'']
                        else [])))"
      by blast
    from 2 have "generateCommitMessage asciiLowerCase ex_git_many (ex_request\<lparr>includeBody := None\<rparr>)
              = Inr (js_join [newline]
                      ([hdr, []]
                       @ map (\<lambda>f. js ''- ''
                                @ (if isDocFile asciiLowerCase f then js ''docs''
                                   else if isTestFile asciiLowerCase f then js ''test''
                                   else if isConfigFile asciiLowerCase f then js ''config''
                                   else js ''code'')
                                @ js '': '' @ f)
                           (take 20 ex_many_files)
                       @ [js ''- '' @ [ellipsis] @ js ''and 1 more file(s)'']))"
      unfolding m[symmetric] by simp
    with 1 show ?thesis by blast
  qed
  from mixed many show ?thesis by (rule conjI)
qed

text \<open>
  C3, as amended. With a maximum subject length of 10 and a derived subject of more
  than 10 code units, the subject in the header is the first 9 code units of the derived
  subject, with trailing whitespace removed, followed by one ellipsis. It has at most 10
  code units, and exactly 10 when the ninth code unit of the derived subject is not
  whitespace.
\<close>

theorem truncated_subject_max_ten:
  fixes g :: git and req :: generateCommitMessageInput and files :: "jsstring list"
    and st :: git_status
  defines "nes \<equiv> filter (\<lambda>f. \<not> shouldExclude f) files"
  defines "subj \<equiv> subject (summary req) st nes"
  defines "emitted \<equiv> trimEnd (take 9 subj) @ [ellipsis]"
  assumes "checkIsRepo g = Inr True" and "status g = Inr st" and "diffSummary g = Inr files"
    and "maxSubjectLength req = Some 10"
    and "length subj > 10"
  shows "(\<exists>body. generateCommitMessage lc g req =
            Inr (typeName (inferredType lc (ctype req) st nes)
                 @ (if truthy (derivedScope (scope req) nes)
                    then js ''('' @ the (derivedScope (scope req) nes) @ js '')'' else [])
                 @ js '': '' @ emitted @ body)
           \<and> (body = [] \<or> hd body = newline)
           \<and> (includeBody req = Some False \<longrightarrow> body = []))
       \<and> length emitted \<le> 10
       \<and> last emitted = ellipsis
       \<and> (\<not> isWhiteSpace (subj ! 8) \<longrightarrow> length emitted = 10)"
proof -
  have n: "nonExcludedSummaryFiles files = nes"
    by (simp add: nonExcludedSummaryFiles_def nes_def)
  have tr: "truncate subj 10 = emitted"
    using truncate_long[of 10 subj] assms(8) by (simp add: emitted_def)
  let ?pre = "typeName (inferredType lc (ctype req) st nes)
                 @ (if truthy (derivedScope (scope req) nes)
                    then js ''('' @ the (derivedScope (scope req) nes) @ js '')'' else [])
                 @ js '': ''"
  have hd: "header (inferredType lc (ctype req) st nes) (derivedScope (scope req) nes) subj 10
              = ?pre @ emitted"
    by (simp add: header_def tr)
  obtain b where b: "js_join [newline] ([?pre @ emitted, []] @ bodyLines lc nes) = (?pre @ emitted) @ b"
      "b = [] \<or> hd b = newline"
    using js_join_header_rest by blast
  let ?body = "if includeBody req = Some False then [] else b"
  have "generateCommitMessage lc g req = Inr (?pre @ emitted @ ?body)"
    using generateCommitMessage_success[OF assms(4-6), of lc req] assms(7) b(1)
    by (simp add: n Let_def hd subj_def[symmetric])
  moreover have "?body = [] \<or> hd ?body = newline"
    using b(2) by auto
  moreover have "includeBody req = Some False \<longrightarrow> ?body = []"
    by simp
  ultimately have A: "\<exists>body. generateCommitMessage lc g req = Inr (?pre @ emitted @ body)
           \<and> (body = [] \<or> hd body = newline)
           \<and> (includeBody req = Some False \<longrightarrow> body = [])"
    by blast
  have "length (trimEnd (take 9 subj)) \<le> length (take 9 subj)"
    by (rule length_trimEnd_le)
  then have B: "length emitted \<le> 10"
    by (simp add: emitted_def)
  have C: "last emitted = ellipsis"
    by (simp add: emitted_def)
  have D: "length emitted = 10" if "\<not> isWhiteSpace (subj ! 8)"
  proof -
    have ne: "take 9 subj \<noteq> []" using assms(8) by auto
    have len: "length (take 9 subj) = 9" using assms(8) by simp
    have "last (take 9 subj) = take 9 subj ! (length (take 9 subj) - 1)"
      using ne by (rule last_conv_nth)
    then have "last (take 9 subj) = take 9 subj ! 8"
      unfolding len by simp
    then have "last (take 9 subj) = subj ! 8"
      by simp
    with ne have "trimEnd (take 9 subj) = take 9 subj"
      using that trimEnd_no_trailing by simp
    then show ?thesis
      using assms(8) by (simp add: emitted_def)
  qed
  from A B C D show ?thesis
    by (simp only: append_assoc) blast
qed

theorem truncated_subject_max_ten_witness:
  "checkIsRepo ex_git_mixed = Inr True \<and> status ex_git_mixed = Inr ex_status_mixed
   \<and> diffSummary ex_git_mixed =
       Inr [js ''README.md'', js ''src/a.test.ts'', js ''package.json'', js ''src/a.ts'',
            js ''dist/a.js'']
   \<and> maxSubjectLength ex_request_max10 = Some 10
   \<and> length (js ''update src files'') > 10
   \<and> includeBody ex_request_max10 = Some False
   \<and> generateCommitMessage asciiLowerCase ex_git_mixed ex_request_max10
        = Inr (js ''refactor(src): '' @ js ''update sr'' @ [ellipsis])
   \<and> length (js ''update sr'' @ [ellipsis]) = 10"
proof -
  have h: "checkIsRepo ex_git_mixed = Inr True" "status ex_git_mixed = Inr ex_status_mixed"
    "diffSummary ex_git_mixed =
       Inr [js ''README.md'', js ''src/a.test.ts'', js ''package.json'', js ''src/a.ts'',
            js ''dist/a.js'']"
    by (simp_all add: ex_git_mixed_def)
  have r: "maxSubjectLength ex_request_max10 = Some 10" "summary ex_request_max10 = None"
    "includeBody ex_request_max10 = Some False" "ctype ex_request_max10 = None"
    "scope ex_request_max10 = None"
    by (simp_all add: ex_request_max10_def)
  have len: "length (js ''update src files'') > 10" "length (js ''update sr'' @ [ellipsis]) = 10"
    by (simp_all add: js_def)
  have l: "length (subject (summary ex_request_max10) ex_status_mixed
             (filter (\<lambda>f. \<not> shouldExclude f)
               [js ''README.md'', js ''src/a.test.ts'', js ''package.json'', js ''src/a.ts'',
                js ''dist/a.js''])) > 10"
    unfolding ex_mixed_nes r ex_mixed_subject by (rule len(1))
  have tk: "trimEnd (take 9 (js ''update src files'')) = js ''update sr''"
    by code_simp
  from truncated_subject_max_ten[OF h r(1) l, where lc = asciiLowerCase]
  have "generateCommitMessage asciiLowerCase ex_git_mixed ex_request_max10
        = Inr (js ''refactor(src): '' @ js ''update sr'' @ [ellipsis])"
    unfolding ex_mixed_nes r ex_mixed_subject ex_mixed_type tk
    by (simp add: derivedScope_def ex_mixed_scope) (simp add: js_def)
  with h r(1,3) len show ?thesis by simp
qed

text \<open>
  C3, as stated, fails: the created file \<open>abcd efghij.ts\<close> gives the derived subject
  \<open>add abcd efghij.ts\<close>, whose first nine code units end in a space; the header is
  \<open>feat: add abcd\<close> followed by the ellipsis, a subject of 9 code units.
\<close>

theorem truncated_subject_exactly_ten_counterexample:
  "maxSubjectLength ex_request_max10 = Some 10
   \<and> subject (summary ex_request_max10) ex_status_spaced
         (nonExcludedSummaryFiles [js ''abcd efghij.ts'']) = js ''add abcd efghij.ts''
   \<and> length (js ''add abcd efghij.ts'') > 10
   \<and> generateCommitMessage asciiLowerCase ex_git_spaced ex_request_max10
        = Inr (js ''feat: '' @ js ''add abcd'' @ [ellipsis])
   \<and> length (js ''add abcd'' @ [ellipsis]) \<noteq> 10"
proof -
  have h: "checkIsRepo ex_git_spaced = Inr True" "status ex_git_spaced = Inr ex_status_spaced"
    "diffSummary ex_git_spaced = Inr [js ''abcd efghij.ts'']"
    by (simp_all add: ex_git_spaced_def)
  have r: "maxSubjectLength ex_request_max10 = Some 10" "summary ex_request_max10 = None"
    "includeBody ex_request_max10 = Some False" "ctype ex_request_max10 = None"
    "scope ex_request_max10 = None"
    by (simp_all add: ex_request_max10_def)
  have cr: "created ex_status_spaced = [js ''abcd efghij.ts'']"
    by (simp add: ex_status_spaced_def)
  have ty: "inferredType asciiLowerCase None ex_status_spaced [js ''abcd efghij.ts''] = Feat"
    by (simp add: inferredType_def ex_spaced_file cr)
  have hd: "header Feat None (js ''add abcd efghij.ts'') 10
              = js ''feat: '' @ js ''add abcd'' @ [ellipsis]"
    by (simp add: header_def ex_spaced_truncate) (simp add: js_def)
  have out: "generateCommitMessage asciiLowerCase ex_git_spaced ex_request_max10
        = Inr (js ''feat: '' @ js ''add abcd'' @ [ellipsis])"
    using generateCommitMessage_success[OF h, of asciiLowerCase ex_request_max10]
    by (simp add: nonExcludedSummaryFiles_def ex_spaced_file r ty derivedScope_def
          ex_spaced_subject hd)
  have len: "length (js ''add abcd efghij.ts'') > 10" "length (js ''add abcd'' @ [ellipsis]) \<noteq> 10"
    by (simp_all add: js_def)
  from r(1) out len show ?thesis
    by (simp add: r nonExcludedSummaryFiles_def ex_spaced_file ex_spaced_subject)
qed

section \<open>Claims about the path guard and the Markdown writer\<close>

text \<open>
  C1. In an absolute working directory, for every root directory and every target,
  \<open>resolveUnderRoot\<close> either raises the traversal error, carrying the resolved path, or
  returns an absolute path that is the resolved root or begins with the resolved root
  followed by the separator. The path returned is in normal form (it is \<open>/\<close> followed by
  its own segments, with no \<open>.\<close> or \<open>..\<close> left), and the segments of the resolved root
  are a prefix of its segments, so it is the root or lies below it.
\<close>

theorem resolveUnderRoot_inside_or_error:
  assumes "startsWith cwd (js ''/'')"
  shows "case resolveUnderRoot cwd root_dir target of
           Inl e \<Rightarrow> e = PathTraversalError (path_resolve cwd [path_resolve cwd [root_dir], target])
         | Inr p \<Rightarrow>
             startsWith p (js ''/'')
             \<and> (p = path_resolve cwd [root_dir]
                \<or> startsWith p (path_resolve cwd [root_dir] @ [slash]))
             \<and> prefix (pathKey (path_resolve cwd [root_dir])) (pathKey p)
             \<and> p = slash # js_join [slash] (pathKey p)"
proof -
  obtain R where R: "normal R" "path_resolve cwd [root_dir] = slash # js_join [slash] R"
    using path_resolve_normal[OF assms] by blast
  define R' where "R' = normalizeSegs False (if target \<noteq> [] \<and> hd target = slash then [] else R)
                          (js_split slash target)"
  have R': "normal R'"
    unfolding R'_def
    by (rule normalizeSegs_keeps_normal) (simp_all add: R(1) normal_Nil js_split_pieces)
  have res: "path_resolve cwd [slash # js_join [slash] R, target] = slash # js_join [slash] R'"
    unfolding R'_def by (rule path_resolve_under[OF R(1)])
  have k: "pathKey (slash # js_join [slash] R) = R" "pathKey (slash # js_join [slash] R') = R'"
    using R(1) R' by (simp_all add: pathKey_root_join)
  show ?thesis
  proof (cases "slash # js_join [slash] R' = slash # js_join [slash] R
                \<or> startsWith (slash # js_join [slash] R') ((slash # js_join [slash] R) @ [slash])")
    case False
    then show ?thesis
      by (simp add: resolveUnderRoot_def Let_def R(2) res)
  next
    case True
    then have pre: "prefix R R'"
    proof
      assume "slash # js_join [slash] R' = slash # js_join [slash] R"
      then have "R' = R"
        using js_join_inject[OF normal_segs_ok[OF R'] normal_segs_ok[OF R(1)]] by simp
      then show ?thesis by simp
    next
      assume "startsWith (slash # js_join [slash] R') ((slash # js_join [slash] R) @ [slash])"
      then have "prefix (slash # js_join [slash] R @ [slash]) (slash # js_join [slash] R')"
        by (simp add: startsWith_def)
      from prefix_root_join[OF normal_segs_ok[OF R(1)] normal_segs_ok[OF R'] this]
      show ?thesis by (simp add: strict_prefix_def)
    qed
    have "resolveUnderRoot cwd root_dir target = Inr (slash # js_join [slash] R')"
      using True by (simp add: resolveUnderRoot_def Let_def R(2) res)
    moreover have "startsWith (slash # js_join [slash] R') (js ''/'')"
      by (simp add: startsWith_slash)
    ultimately show ?thesis
      using True pre by (simp add: R(2) res k)
  qed
qed

theorem resolveUnderRoot_inside_or_error_witness:
  "startsWith (js ''/w'') (js ''/'')
   \<and> resolveUnderRoot (js ''/w'') (js ''r'') (js ''docs/notes.md'') = Inr (js ''/w/r/docs/notes.md'')
   \<and> startsWith (js ''/w/r/docs/notes.md'') (js ''/'')
   \<and> (js ''/w/r/docs/notes.md'' = js ''/w/r''
        \<or> startsWith (js ''/w/r/docs/notes.md'') (js ''/w/r'' @ [slash]))
   \<and> prefix [js ''w'', js ''r''] [js ''w'', js ''r'', js ''docs'', js ''notes.md'']
   \<and> js ''/w/r/docs/notes.md''
        = slash # js_join [slash] [js ''w'', js ''r'', js ''docs'', js ''notes.md'']"
proof -
  have h: "startsWith (js ''/w'') (js ''/'')"
    by (simp add: startsWith_def js_def)
  note c = resolveUnderRoot_inside_or_error[OF h, of "js ''r''" "js ''docs/notes.md''",
      unfolded ex_resolve_docs sum.case ex_keys]
  from h ex_resolve_docs c show ?thesis by blast
qed

text \<open>
  C6. With the overwrite flag not set: when the resolved target exists, the writer fails
  with the file-exists error that carries the relative path, and the file system is
  what it was; and when a call of the writer succeeds, the file it wrote is there with
  the document as its text, and a second call with the same request fails with that
  error and leaves the file system, the written file included, as the first call left
  it.
\<close>

theorem markdown_existing_file_kept:
  assumes "startsWith cwd (js ''/'')" and "overwrite req \<noteq> Some True"
  shows "(\<forall>fullPath.
            resolveUnderRoot cwd (rootDir req) (relativePath req) = Inr fullPath
            \<and> stat_ok fs fullPath
            \<longrightarrow> generateMarkdownFile cwd req fs = (Inl (FileExistsError (relativePath req)), fs))
       \<and> (\<forall>res fs'.
            generateMarkdownFile cwd req fs = (Inr res, fs')
            \<longrightarrow> lookup fs' (pathKey (path res)) = Some (File (finalContent req))
              \<and> generateMarkdownFile cwd req fs'
                    = (Inl (FileExistsError (relativePath req)), fs'))"
proof (intro conjI allI impI)
  fix fullPath
  assume "resolveUnderRoot cwd (rootDir req) (relativePath req) = Inr fullPath
            \<and> stat_ok fs fullPath"
  then show "generateMarkdownFile cwd req fs = (Inl (FileExistsError (relativePath req)), fs)"
    using generateMarkdownFile_exists[OF assms] by blast
next
  fix res fs'
  assume g: "generateMarkdownFile cwd req fs = (Inr res, fs')"
  from generateMarkdownFile_written[OF assms g]
  show "lookup fs' (pathKey (path res)) = Some (File (finalContent req))"
    by simp
  from generateMarkdownFile_written[OF assms g]
  show "generateMarkdownFile cwd req fs' = (Inl (FileExistsError (relativePath req)), fs')"
    using generateMarkdownFile_exists[OF assms] by blast
qed

theorem markdown_existing_file_kept_witness:
  "startsWith (js ''/'') (js ''/'') \<and> overwrite ex_md_request \<noteq> Some True
   \<and> resolveUnderRoot (js ''/'') (rootDir ex_md_request) (relativePath ex_md_request)
        = Inr (js ''/srv/notes.md'')
   \<and> stat_ok ex_fs (js ''/srv/notes.md'')
   \<and> generateMarkdownFile (js ''/'') ex_md_request ex_fs = (Inl (FileExistsError (js ''notes.md'')), ex_fs)
   \<and> fst (generateMarkdownFile (js ''/'') ex_md_request ex_fs_empty)
        = Inr \<lparr>path = js ''/srv/notes.md'', bytesWritten = 4, created_new = True,
               overwritten = False\<rparr>
   \<and> generateMarkdownFile (js ''/'') ex_md_request
        (snd (generateMarkdownFile (js ''/'') ex_md_request ex_fs_empty))
        = (Inl (FileExistsError (js ''notes.md'')),
           snd (generateMarkdownFile (js ''/'') ex_md_request ex_fs_empty))
   \<and> lookup (snd (generateMarkdownFile (js ''/'') ex_md_request ex_fs_empty))
        [js ''srv'', js ''notes.md''] = Some (File (js ''# T'' @ [newline]))"
proof -
  have h: "startsWith (js ''/'') (js ''/'')" "overwrite ex_md_request \<noteq> Some True"
    by (simp_all add: startsWith_def ex_md_request_def)
  have r: "resolveUnderRoot (js ''/'') (rootDir ex_md_request) (relativePath ex_md_request)
        = Inr (js ''/srv/notes.md'')"
    by (simp add: ex_md_request_def ex_resolve_notes)
  have rp: "relativePath ex_md_request = js ''notes.md''"
    by (simp add: ex_md_request_def)
  have g: "generateMarkdownFile (js ''/'') ex_md_request ex_fs_empty
             = (Inr \<lparr>path = js ''/srv/notes.md'', bytesWritten = 4, created_new = True,
                      overwritten = False\<rparr>,
                snd (generateMarkdownFile (js ''/'') ex_md_request ex_fs_empty))"
    using ex_notes_run by (simp add: prod_eq_iff)
  from markdown_existing_file_kept[OF h, of ex_fs] r ex_stat
  have a: "generateMarkdownFile (js ''/'') ex_md_request ex_fs
             = (Inl (FileExistsError (js ''notes.md'')), ex_fs)"
    by (simp add: rp)
  from markdown_existing_file_kept[OF h, of ex_fs_empty] g
  have b: "lookup (snd (generateMarkdownFile (js ''/'') ex_md_request ex_fs_empty))
             (pathKey (js ''/srv/notes.md'')) = Some (File (finalContent ex_md_request))
           \<and> generateMarkdownFile (js ''/'') ex_md_request
                (snd (generateMarkdownFile (js ''/'') ex_md_request ex_fs_empty))
              = (Inl (FileExistsError (relativePath ex_md_request)),
                 snd (generateMarkdownFile (js ''/'') ex_md_request ex_fs_empty))"
    by (metis select_convs(1) markdownWriteResult.select_convs(1))
  from h r ex_stat a b ex_notes_run show ?thesis
    by (simp add: rp ex_keys ex_final)
qed

text \<open>
  C7, as amended. In an absolute working directory, for every root directory whose
  resolved path does not end in the segment \<open>outside.md\<close>, the writer called with the
  relative path \<open>../outside.md\<close> fails with the traversal error and the file system is
  what it was.
\<close>

theorem markdown_parent_outside_rejected:
  assumes "startsWith cwd (js ''/'')"
    and "relativePath req = js ''../outside.md''"
    and "basename (path_resolve cwd [rootDir req]) \<noteq> js ''outside.md''"
  shows "generateMarkdownFile cwd req fs
           = (Inl (PathTraversalError
                     (path_resolve cwd [path_resolve cwd [rootDir req], js ''../outside.md''])),
              fs)"
proof -
  let ?o = "js ''outside.md''"
  obtain R where R: "normal R" "path_resolve cwd [rootDir req] = slash # js_join [slash] R"
    using path_resolve_normal[OF assms(1)] by blast
  have sp: "js_split slash (js ''../outside.md'') = [js ''..'', ?o]"
    by (simp add: js_def slash_def)
  have o: "?o \<noteq> []" "slash \<notin> set ?o" "?o \<noteq> js ''.''" "?o \<noteq> js ''..''"
    "js ''..'' \<noteq> []" "js ''..'' \<noteq> js ''.''" "hd (js ''../outside.md'') \<noteq> slash"
    by (simp_all add: js_def slash_def)
  have last_ok: "last R \<noteq> js ''..''" if "R \<noteq> []"
    using R(1) that by (auto simp: normal_def)
  have ns: "normalizeSegs False R [js ''..'', ?o] = butlast R @ [?o]"
    using o last_ok by (cases "R = []") simp_all
  have "path_resolve cwd [slash # js_join [slash] R, js ''../outside.md'']
          = slash # js_join [slash]
              (normalizeSegs False R (js_split slash (js ''../outside.md'')))"
    using path_resolve_under[OF R(1), of cwd "js ''../outside.md''"] o(7)
    by (simp only: if_False simp_thms)
  then have res: "path_resolve cwd [slash # js_join [slash] R, js ''../outside.md'']
               = slash # js_join [slash] (butlast R @ [?o])"
    unfolding sp ns .
  have R': "segs_ok (butlast R @ [?o])"
    using normal_segs_ok[OF normal_butlast[OF R(1)]] o by (simp add: segs_ok_def)
  have neq: "slash # js_join [slash] (butlast R @ [?o]) \<noteq> slash # js_join [slash] R"
  proof
    assume "slash # js_join [slash] (butlast R @ [?o]) = slash # js_join [slash] R"
    then have "butlast R @ [?o] = R"
      using js_join_inject[OF R' normal_segs_ok[OF R(1)]] by simp
    then have "R \<noteq> []" "last R = ?o"
      by (auto simp: snoc_eq_iff_butlast)
    with assms(3) show False
      by (simp add: R(2) basename_root_join[OF normal_segs_ok[OF R(1)]])
  qed
  have npre: "\<not> startsWith (slash # js_join [slash] (butlast R @ [?o]))
                  ((slash # js_join [slash] R) @ [slash])"
  proof
    assume "startsWith (slash # js_join [slash] (butlast R @ [?o]))
                  ((slash # js_join [slash] R) @ [slash])"
    then have "prefix (slash # js_join [slash] R @ [slash])
                 (slash # js_join [slash] (butlast R @ [?o]))"
      by (simp add: startsWith_def)
    from prefix_root_join[OF normal_segs_ok[OF R(1)] R' this]
    have "R \<noteq> []" "strict_prefix R (butlast R @ [?o])" by simp_all
    then have "length R < length (butlast R @ [?o])"
      by (metis prefix_length_less)
    with \<open>R \<noteq> []\<close> show False by simp
  qed
  have "resolveUnderRoot cwd (rootDir req) (js ''../outside.md'')
          = Inl (PathTraversalError (slash # js_join [slash] (butlast R @ [?o])))"
    using neq npre by (simp add: resolveUnderRoot_def Let_def R(2) res)
  then show ?thesis
    by (simp add: generateMarkdownFile_def assms(2) R(2) res)
qed

theorem markdown_parent_outside_rejected_witness:
  "startsWith (js ''/'') (js ''/'') \<and> relativePath ex_md_parent = js ''../outside.md''
   \<and> basename (path_resolve (js ''/'') [rootDir ex_md_parent]) \<noteq> js ''outside.md''
   \<and> generateMarkdownFile (js ''/'') ex_md_parent ex_fs
        = (Inl (PathTraversalError (js ''/outside.md'')), ex_fs)"
proof -
  have h: "startsWith (js ''/'') (js ''/'')" "relativePath ex_md_parent = js ''../outside.md''"
    "basename (path_resolve (js ''/'') [rootDir ex_md_parent]) \<noteq> js ''outside.md''"
    by (simp_all add: startsWith_def ex_md_parent_def ex_parent)
  have rd: "rootDir ex_md_parent = js ''/srv''"
    by (simp add: ex_md_parent_def)
  from markdown_parent_outside_rejected[OF h, of ex_fs] h show ?thesis
    by (simp add: rd ex_parent)
qed

text \<open>
  C7, as stated for every root, fails: under the root \<open>/srv/outside.md\<close> the path
  \<open>../outside.md\<close> resolves to the root itself, which the guard accepts, and on a file
  system where that path does not exist the writer creates the file
  \<open>/srv/outside.md\<close>.
\<close>

theorem markdown_parent_outside_counterexample:
  "relativePath ex_md_outside = js ''../outside.md''
   \<and> fst (generateMarkdownFile (js ''/'') ex_md_outside ex_fs_empty)
        = Inr \<lparr>path = js ''/srv/outside.md'', bytesWritten = 4, created_new = True,
               overwritten = False\<rparr>
   \<and> ex_fs_empty [js ''srv'', js ''outside.md''] = None
   \<and> snd (generateMarkdownFile (js ''/'') ex_md_outside ex_fs_empty) [js ''srv'', js ''outside.md'']
        = Some (File (js ''# T'' @ [newline]))"
  using ex_outside_run by (simp add: ex_md_outside_def ex_fs_empty_def)

end
